theory Spec2Isabelle
  imports Complex_Main
begin

section \<open>JavaScript strings and numbers used by the scraper\<close>

text \<open>
  Strings are lists of code units; the model covers the code units 0..255.
  The white space that \<^verbatim>\<open>parseInt\<close> and \<^verbatim>\<open>parseFloat\<close> strip is, in that range,
  TAB, LF, VT, FF, CR, SP and NBSP.
\<close>

definition is_space :: "char \<Rightarrow> bool" where
  "is_space c = ((of_char c :: nat) \<in> {9, 10, 11, 12, 13, 32, 160})"

definition is_digit :: "char \<Rightarrow> bool" where
  "is_digit c = (c \<in> set ''0123456789'')"

definition is_hex_digit :: "char \<Rightarrow> bool" where
  "is_hex_digit c = (c \<in> set ''0123456789abcdefABCDEF'')"

definition digit_value :: "char \<Rightarrow> nat" where
  "digit_value c =
     (let n = (of_char c :: nat)
      in if is_digit c then n - 48
         else if c \<in> set ''abcdef'' then n - 87
         else n - 55)"

definition radix_value :: "nat \<Rightarrow> string \<Rightarrow> nat" where
  "radix_value R ds = foldl (\<lambda>acc c. acc * R + digit_value c) 0 ds"

text \<open>
  \<^verbatim>\<open>parseInt(s)\<close> with no radix argument, after ECMA-262: strip leading white space,
  read an optional sign, switch to radix 16 after a \<^verbatim>\<open>0x\<close> or \<^verbatim>\<open>0X\<close> prefix, take the
  longest run of digits of the radix, and answer NaN (here \<open>None\<close>) when that run is
  empty. The result is the mathematical integer. The code's number is that integer
  rounded to a double: the same up to \<open>2 ^ 53\<close> in magnitude, a neighbouring double
  above, infinite beyond the range of doubles, and never NaN. Whether the result is NaN
  is exact for every string; a theorem that names the value does so up to \<open>2 ^ 53\<close>.
\<close>

definition parseInt :: "string \<Rightarrow> int option" where
  "parseInt s =
     (let S = dropWhile is_space s;
          neg = (case S of [] \<Rightarrow> False | c # _ \<Rightarrow> c = CHR ''-'');
          S1 = (case S of [] \<Rightarrow> S
                | c # r \<Rightarrow> if c = CHR ''+'' \<or> c = CHR ''-'' then r else S);
          hex = (take 2 S1 = ''0x'' \<or> take 2 S1 = ''0X'');
          S2 = (if hex then drop 2 S1 else S1);
          Z = (if hex then takeWhile is_hex_digit S2 else takeWhile is_digit S2);
          mathInt = int (radix_value (if hex then 16 else 10) Z)
      in if Z = [] then None
         else Some (if neg then - mathInt else mathInt))"

text \<open>
  A JavaScript number as \<^verbatim>\<open>parseFloat\<close> returns it: NaN, an infinity, or the value
  of a decimal literal. The value is kept exact (a rational): the code's number is that
  value rounded to the nearest double (infinite on overflow, zero on underflow), and the
  sign of zero is not kept. Which strings give NaN and which an infinity literal is exact.
\<close>

datatype jsnum = NaN | PosInfinity | NegInfinity | Finite rat

definition exponent_part :: "string \<Rightarrow> int" where
  "exponent_part r =
     (case r of [] \<Rightarrow> 0
      | c # r1 \<Rightarrow>
          if c = CHR ''e'' \<or> c = CHR ''E'' then
            (let neg = (case r1 of [] \<Rightarrow> False | d # _ \<Rightarrow> d = CHR ''-'');
                 r2 = (case r1 of [] \<Rightarrow> r1
                       | d # r' \<Rightarrow> if d = CHR ''+'' \<or> d = CHR ''-'' then r' else r1);
                 ds = takeWhile is_digit r2
             in if ds = [] then 0
                else if neg then - int (radix_value 10 ds) else int (radix_value 10 ds))
          else 0)"

fun strip_prefix :: "string \<Rightarrow> string \<Rightarrow> string option" where
  "strip_prefix [] s = Some s"
| "strip_prefix (p # ps) [] = None"
| "strip_prefix (p # ps) (c # cs) = (if p = c then strip_prefix ps cs else None)"

text \<open>
  \<^verbatim>\<open>parseFloat(s)\<close>: strip leading white space, then read the longest prefix that is a
  \<^verbatim>\<open>StrDecimalLiteral\<close> (sign, then \<^verbatim>\<open>Infinity\<close> or digits with an optional fraction
  and an optional exponent); NaN when there is no such prefix.
\<close>

definition parseFloat :: "string \<Rightarrow> jsnum" where
  "parseFloat s =
     (let t = dropWhile is_space s;
          neg = (case t of [] \<Rightarrow> False | c # _ \<Rightarrow> c = CHR ''-'');
          u = (case t of [] \<Rightarrow> t
               | c # r \<Rightarrow> if c = CHR ''+'' \<or> c = CHR ''-'' then r else t)
      in if strip_prefix ''Infinity'' u \<noteq> None
         then (if neg then NegInfinity else PosInfinity)
         else
           (let ip = takeWhile is_digit u;
                r1 = dropWhile is_digit u;
                dot = (case r1 of [] \<Rightarrow> False | c # _ \<Rightarrow> c = CHR ''.'');
                fp = (if dot then takeWhile is_digit (tl r1) else []);
                r2 = (if dot then dropWhile is_digit (tl r1) else r1);
                ex = exponent_part r2;
                m = (of_nat (radix_value 10 (ip @ fp)) :: rat) / 10 ^ length fp;
                v = (if 0 \<le> ex then m * 10 ^ nat ex else m / 10 ^ nat (- ex))
            in if ip = [] \<and> fp = [] then NaN
               else Finite (if neg then - v else v)))"

text \<open>\<^verbatim>\<open>s.split(sep)\<close> for a one-character separator.\<close>

fun js_split :: "char \<Rightarrow> string \<Rightarrow> string list" where
  "js_split sep [] = [[]]"
| "js_split sep (c # cs) =
     (if c = sep then [] # js_split sep cs
      else (case js_split sep cs of [] \<Rightarrow> [[c]] | p # ps \<Rightarrow> (c # p) # ps))"

text \<open>
  Substring search: \<^verbatim>\<open>/lit/.test(s)\<close> for a pattern without metacharacters, and the
  attribute selector \<^verbatim>\<open>[alt*=lit]\<close>.
\<close>

fun contains :: "string \<Rightarrow> string \<Rightarrow> bool" where
  "contains p [] = (p = [])"
| "contains p (c # cs) = (if strip_prefix p (c # cs) = None then contains p cs else True)"

text \<open>
  \<^verbatim>\<open>/Showing \d+ of (\d+) reports/.exec(s)\<close>, returning capture group 1. At one start
  position the match is deterministic: each \<^verbatim>\<open>\d+\<close> is followed by a literal that
  begins with a space, so only the maximal digit run can match. \<^verbatim>\<open>exec\<close> returns the
  leftmost match.
\<close>

definition match_reports_at :: "string \<Rightarrow> string option" where
  "match_reports_at s =
     (case strip_prefix ''Showing '' s of None \<Rightarrow> None
      | Some r1 \<Rightarrow>
          if takeWhile is_digit r1 = [] then None
          else
            (case strip_prefix '' of '' (dropWhile is_digit r1) of None \<Rightarrow> None
             | Some r2 \<Rightarrow>
                 if takeWhile is_digit r2 = [] then None
                 else
                   (case strip_prefix '' reports'' (dropWhile is_digit r2) of None \<Rightarrow> None
                    | Some _ \<Rightarrow> Some (takeWhile is_digit r2))))"

fun exec_reports :: "string \<Rightarrow> string option" where
  "exec_reports [] = match_reports_at []"
| "exec_reports (c # cs) =
     (case match_reports_at (c # cs) of Some d \<Rightarrow> Some d | None \<Rightarrow> exec_reports cs)"

text \<open>
  Number to string inside the template literal: the decimal digits of an integer, as the
  code prints every identifier up to \<open>2 ^ 53\<close> in magnitude (beyond, the code prints the
  rounded double, in exponent form from \<open>10 ^ 21\<close> on).
\<close>

fun dec_nat :: "nat \<Rightarrow> string" where
  "dec_nat n =
     (if n < 10 then [''0123456789'' ! n]
      else dec_nat (n div 10) @ [''0123456789'' ! (n mod 10)])"

declare dec_nat.simps [simp del]

definition number_to_string :: "int \<Rightarrow> string" where
  "number_to_string n = (if n < 0 then CHR ''-'' # dec_nat (nat (- n)) else dec_nat (nat n))"

text \<open>JavaScript truthiness of an optional string and of an optional number.\<close>

definition truthy_str :: "string option \<Rightarrow> bool" where
  "truthy_str v = (case v of None \<Rightarrow> False | Some s \<Rightarrow> s \<noteq> [])"

definition truthy_num :: "int option \<Rightarrow> bool" where
  "truthy_num v = (case v of None \<Rightarrow> False | Some n \<Rightarrow> n \<noteq> 0)"

section \<open>Documents, features and the outside world\<close>

text \<open>
  A loaded document, as far as the selectors of \<^verbatim>\<open>scheduled\<close> look at it: the rows
  matched by \<^verbatim>\<open>table tbody tr\<close> with their child cells in order, the \<^verbatim>\<open>img\<close> elements
  in document order, and the text under \<^verbatim>\<open>.results-meta .num-results p\<close>.
\<close>

datatype cell = Th string | Td string

record img =
  classes :: "string list"
  alt :: "string option"
  src :: "string option"

record document =
  table_rows :: "cell list list"
  imgs :: "img list"
  results_meta :: string

record feature =
  fid :: int
  name :: string
  url :: string
  imageUrl :: "string option"
  numReports :: "int option"
  mileNumber :: int
  coordinates :: "jsnum list"

record collection =
  updatedAt :: string
  features :: "feature list"

datatype error = FetchFailed string | NoImages | NoReports | TooFewMiles nat

datatype event = FetchTable string | FetchDetail string | KvPut string string

text \<open>
  What \<^verbatim>\<open>await fetch(url)\<close> resolves to, as far as the run can tell: the status of the
  response and the document that \<^verbatim>\<open>response.text()\<close> and \<^verbatim>\<open>cheerio.load\<close> make of its
  body. An error answer (404, 500) is a response like any other, with the error page as
  its document.
\<close>

record response =
  status :: nat
  content :: document

text \<open>
  The collaborators of a run: the network (\<open>None\<close> when the promise of \<^verbatim>\<open>fetch\<close>
  rejects, that is on a network error), the \<^verbatim>\<open>slugify\<close> package, \<^verbatim>\<open>toLowerCase\<close>, the
  clock and \<^verbatim>\<open>JSON.stringify\<close>.
\<close>

record world =
  http :: "string \<Rightarrow> response option"
  slugify :: "string \<Rightarrow> string"
  toLowerCase :: "string \<Rightarrow> string"
  now :: string
  stringify :: "collection \<Rightarrow> string"

text \<open>
  Lines 160 to 164 and 206 to 208: \<^verbatim>\<open>fetch\<close>, \<^verbatim>\<open>text()\<close> and \<^verbatim>\<open>cheerio.load\<close> in a row.
  The status of the response is not read: neither \<^verbatim>\<open>response.ok\<close> nor
  \<^verbatim>\<open>response.status\<close> occurs in the source.
\<close>

definition fetch :: "world \<Rightarrow> string \<Rightarrow> document option" where
  "fetch w u = (case http w u of None \<Rightarrow> None | Some response \<Rightarrow> Some (content response))"

type_synonym kv = "string \<rightharpoonup> string"

record loop_state =
  imagesFetched :: nat
  miles :: collection
  trace :: "event list"

definition sheet_url :: string where
  "sheet_url = ''https://docs.google.com/spreadsheets/d/e/2PACX-1vSp5MoqyAVhnJ62MKhBcQOWZmfs31cYbkM5Jp1yl1k2eDoa26EswGD4x_ephhuFXvYst2VgCaw3Qvau/pubhtml''"

section \<open>The scheduled run\<close>

text \<open>The text of \<^verbatim>\<open>$(row).find("td:nth-child(n)")\<close>; empty when nothing matches.\<close>

definition td_text :: "nat \<Rightarrow> cell list \<Rightarrow> string" where
  "td_text n row =
     (if 0 < n \<and> n \<le> length row
      then (case row ! (n - 1) of Td t \<Rightarrow> t | Th _ \<Rightarrow> [])
      else [])"

text \<open>Lines 174 to 200: one row becomes a feature, or the loop continues (\<open>None\<close>).\<close>

definition parse_row :: "world \<Rightarrow> cell list \<Rightarrow> feature option" where
  "parse_row w row =
     (case parseInt (td_text 2 row) of None \<Rightarrow> None
      | Some i \<Rightarrow>
          let nm = td_text 3 row
          in if contains ''never captured on OSCC website'' nm then None
             else
               (let coords = rev (js_split CHR '','' (td_text 5 row))
                in Some \<lparr> fid = i, name = nm,
                     url = ''https://oregonshores.org/mile/mile-'' @ number_to_string i
                           @ ''-'' @ slugify w (toLowerCase w nm) @ ''/'',
                     imageUrl = None, numReports = None, mileNumber = i,
                     coordinates = map parseFloat coords \<rparr>))"

text \<open>\<^verbatim>\<open>.attr("src")\<close> of a selection: the attribute of its first element.\<close>

definition attr_src :: "img list \<Rightarrow> string option" where
  "attr_src sel = (case sel of [] \<Rightarrow> None | e # _ \<Rightarrow> src e)"

definition is_mile_image :: "img \<Rightarrow> bool" where
  "is_mile_image e = (''mile-image'' \<in> set (classes e))"

definition is_report_image :: "img \<Rightarrow> bool" where
  "is_report_image e =
     (''mile-report-result-image'' \<in> set (classes e)
      \<and> (case alt e of None \<Rightarrow> True | Some a \<Rightarrow> \<not> contains ''decorative'' a))"

text \<open>Lines 208 to 233: the fields read from the detail page.\<close>

definition enrich :: "document \<Rightarrow> feature \<Rightarrow> feature" where
  "enrich doc feature =
     (let image = attr_src (filter is_mile_image (imgs doc));
          f1 = (if truthy_str image then feature\<lparr>imageUrl := image\<rparr>
                else
                  (let reportImageUrl = attr_src (take 1 (filter is_report_image (imgs doc)))
                   in if truthy_str reportImageUrl then feature\<lparr>imageUrl := reportImageUrl\<rparr>
                      else feature));
          reports = results_meta doc
      in case exec_reports reports of None \<Rightarrow> f1
         | Some d \<Rightarrow>
             if d \<noteq> [] then
               (case parseInt d of None \<Rightarrow> f1 | Some n \<Rightarrow> f1\<lparr>numReports := Some n\<rparr>)
             else f1)"

definition push :: "feature \<Rightarrow> collection \<Rightarrow> collection" where
  "push f c = c\<lparr>features := features c @ [f]\<rparr>"

text \<open>
  One iteration of the loop over the rows (lines 173 to 236). The result is the
  exception that leaves the loop, if any, and the state reached.
\<close>

definition process_row :: "world \<Rightarrow> cell list \<Rightarrow> loop_state \<Rightarrow> error option \<times> loop_state" where
  "process_row w row st =
     (case parse_row w row of None \<Rightarrow> (None, st)
      | Some feature \<Rightarrow>
          let n = imagesFetched st;
              st1 = st\<lparr>imagesFetched := n + 1\<rparr>
          in if n < 500 then
               (let st2 = st1\<lparr>trace := trace st1 @ [FetchDetail (url feature)]\<rparr>
                in case fetch w (url feature) of
                     None \<Rightarrow> (Some (FetchFailed (url feature)), st2)
                   | Some doc \<Rightarrow> (None, st2\<lparr>miles := push (enrich doc feature) (miles st2)\<rparr>))
             else (None, st1\<lparr>miles := push feature (miles st1)\<rparr>))"

fun rows_loop :: "world \<Rightarrow> cell list list \<Rightarrow> loop_state \<Rightarrow> error option \<times> loop_state" where
  "rows_loop w [] st = (None, st)"
| "rows_loop w (row # rest) st =
     (case process_row w row st of
        (Some e, st') \<Rightarrow> (Some e, st')
      | (None, st') \<Rightarrow> rows_loop w rest st')"

text \<open>Lines 241 to 253: the sanity check before the collection is saved.\<close>

definition sanity_check :: "collection \<Rightarrow> error option" where
  "sanity_check c =
     (if find (\<lambda>mile. \<not> truthy_str (imageUrl mile)) (features c) = None then Some NoImages
      else if find (\<lambda>mile. \<not> truthy_num (numReports mile)) (features c) = None
        then Some NoReports
      else if length (features c) < 10 then Some (TooFewMiles (length (features c)))
      else None)"

text \<open>Lines 166 to 171, after the table has been fetched.\<close>

definition initial_state :: "world \<Rightarrow> loop_state" where
  "initial_state w =
     \<lparr> imagesFetched = 0,
       miles = \<lparr> updatedAt = now w, features = [] \<rparr>,
       trace = [FetchTable sheet_url] \<rparr>"

text \<open>
  The whole of \<^verbatim>\<open>scheduled\<close>: the exception it throws, if any, the key-value store
  it leaves, and the requests and writes it made, in order.
\<close>

definition scheduled :: "world \<Rightarrow> kv \<Rightarrow> error option \<times> kv \<times> event list" where
  "scheduled w store =
     (case fetch w sheet_url of
        None \<Rightarrow> (Some (FetchFailed sheet_url), store, [FetchTable sheet_url])
      | Some body \<Rightarrow>
          (case rows_loop w (table_rows body) (initial_state w) of
             (Some e, st) \<Rightarrow> (Some e, store, trace st)
           | (None, st) \<Rightarrow>
               (case sanity_check (miles st) of
                  Some e \<Rightarrow> (Some e, store, trace st)
                | None \<Rightarrow>
                    (None, store(''miles'' \<mapsto> stringify w (miles st)),
                     trace st @ [KvPut ''miles'' (stringify w (miles st))]))))"

section \<open>Observations on a run\<close>

fun is_put :: "event \<Rightarrow> bool" where
  "is_put (KvPut k v) = True"
| "is_put e = False"

fun detail_urls :: "event list \<Rightarrow> string list" where
  "detail_urls [] = []"
| "detail_urls (FetchDetail u # evs) = u # detail_urls evs"
| "detail_urls (e # evs) = detail_urls evs"

text \<open>A feature with the two fields of the detail page taken away.\<close>

definition unenriched :: "feature \<Rightarrow> feature" where
  "unenriched f = f\<lparr>imageUrl := None, numReports := None\<rparr>"

text \<open>The image that lines 210 to 224 leave in a feature whose image was \<open>old\<close>.\<close>

definition image_of :: "document \<Rightarrow> string option \<Rightarrow> string option" where
  "image_of doc old =
     (if truthy_str (attr_src (filter is_mile_image (imgs doc)))
      then attr_src (filter is_mile_image (imgs doc))
      else if truthy_str (attr_src (take 1 (filter is_report_image (imgs doc))))
      then attr_src (take 1 (filter is_report_image (imgs doc)))
      else old)"

section \<open>Sample tables and detail pages\<close>

definition data_row :: "string \<Rightarrow> string \<Rightarrow> string \<Rightarrow> cell list" where
  "data_row i nm south = [Th [], Td i, Td nm, Td [], Td south]"

definition header_row :: "cell list" where
  "header_row = data_row ''Mile #'' ''Mile Name'' ''South Boundary''"

definition mile7_row :: "cell list" where
  "mile7_row = data_row ''7'' ''neahkahnie'' ''44.1,-124.0''"

definition sentinel_row :: "cell list" where
  "sentinel_row = data_row ''8'' ''eight (never captured on OSCC website)'' ''44.0,-124.0''"

definition mile9_row :: "cell list" where
  "mile9_row = data_row ''9'' ''nine'' ''north,south''"

definition sample_rows :: "cell list list" where
  "sample_rows = [header_row, mile7_row, sentinel_row, mile9_row]"

definition ten_rows :: "cell list list" where
  "ten_rows = map (\<lambda>i. data_row i ''mile'' ''44.1,-124.0'')
     [''21'', ''22'', ''23'', ''24'', ''25'', ''26'', ''27'', ''28'', ''29'', ''30'']"

definition plain_page :: document where
  "plain_page = \<lparr> table_rows = [], imgs = [], results_meta = [] \<rparr>"

definition mile_img :: img where
  "mile_img = \<lparr> classes = [''mile-image''], alt = None, src = Some ''a.jpg'' \<rparr>"

definition decorative_img :: img where
  "decorative_img = \<lparr> classes = [''mile-report-result-image''],
     alt = Some ''decorative placeholder'', src = Some ''placeholder.png'' \<rparr>"

definition report_img :: img where
  "report_img = \<lparr> classes = [''mile-report-result-image''],
     alt = Some ''Beach at low tide'', src = Some ''report.jpg'' \<rparr>"

definition image_page :: document where
  "image_page = \<lparr> table_rows = [], imgs = [mile_img], results_meta = [] \<rparr>"

definition reports_page :: document where
  "reports_page = \<lparr> table_rows = [], imgs = [], results_meta = ''Showing 3 of 47 reports'' \<rparr>"

definition full_page :: document where
  "full_page = \<lparr> table_rows = [], imgs = [mile_img],
     results_meta = ''Showing 3 of 47 reports'' \<rparr>"

definition fallback_page :: document where
  "fallback_page = \<lparr> table_rows = [],
     imgs = [mile_img\<lparr>src := Some []\<rparr>, decorative_img, report_img],
     results_meta = ''Showing 10 of 120 reports'' \<rparr>"

definition two_counts_page :: document where
  "two_counts_page = \<lparr> table_rows = [], imgs = [],
     results_meta = '' Showing 3 of 47 reports Showing 1 of 9 reports'' \<rparr>"

definition first_mile_only :: "document \<Rightarrow> string \<Rightarrow> document option" where
  "first_mile_only page u =
     (if u = ''https://oregonshores.org/mile/mile-21-mile/'' then Some page
      else Some plain_page)"

text \<open>
  Worlds for the sample tables. Their names are lower-case single words, on which
  \<^verbatim>\<open>toLowerCase\<close> and \<^verbatim>\<open>slugify\<close> change nothing. The table is answered with status
  200; \<open>test_world\<close> answers every detail page it has with status 200 as well.
\<close>

definition http_world :: "cell list list \<Rightarrow> (string \<Rightarrow> response option) \<Rightarrow> world" where
  "http_world rows answers =
     \<lparr> http = (\<lambda>u. if u = sheet_url
                    then Some \<lparr> status = 200,
                           content = \<lparr> table_rows = rows, imgs = [], results_meta = [] \<rparr> \<rparr>
                    else answers u),
       slugify = (\<lambda>s. s), toLowerCase = (\<lambda>s. s),
       now = ''2024-01-01T03:00:00.000Z'',
       stringify = (\<lambda>c. updatedAt c @ concat (map (\<lambda>f. CHR '';'' # name f) (features c))) \<rparr>"

definition test_world :: "cell list list \<Rightarrow> (string \<Rightarrow> document option) \<Rightarrow> world" where
  "test_world rows pages =
     http_world rows
       (\<lambda>u. case pages u of None \<Rightarrow> None
             | Some page \<Rightarrow> Some \<lparr> status = 200, content = page \<rparr>)"

text \<open>
  Answers in which only the page of mile 21 is served; every other detail request gets
  status 500 with an error page that has neither images nor results text.
\<close>

definition mostly_errors :: "string \<Rightarrow> response option" where
  "mostly_errors u =
     (if u = ''https://oregonshores.org/mile/mile-21-mile/''
      then Some \<lparr> status = 200, content = full_page \<rparr>
      else Some \<lparr> status = 500, content = plain_page \<rparr>)"

definition sample_feature :: feature where
  "sample_feature =
     \<lparr> fid = 6, name = ''six'', url = ''https://oregonshores.org/mile/mile-6-six/'',
       imageUrl = None, numReports = None, mileNumber = 6,
       coordinates = [Finite (- 124), Finite 44] \<rparr>"

text \<open>A loop state one request short of the cap.\<close>

definition near_cap :: loop_state where
  "near_cap =
     \<lparr> imagesFetched = 499,
       miles = \<lparr> updatedAt = ''2024-01-01T03:00:00.000Z'', features = [sample_feature] \<rparr>,
       trace = [FetchTable sheet_url] \<rparr>"

section \<open>Properties of the building blocks\<close>

lemma strip_prefix_Some_iff: "strip_prefix p s = Some r \<longleftrightarrow> s = p @ r"
  by (induction p s rule: strip_prefix.induct) auto

lemma strip_prefix_append: "strip_prefix p (p @ r) = Some r"
  by (simp add: strip_prefix_Some_iff)

lemma strip_prefix_None_iff: "strip_prefix p s = None \<longleftrightarrow> (\<forall>r. s \<noteq> p @ r)"
  by (metis not_Some_eq strip_prefix_Some_iff)

lemma digit_not_space: "is_digit c \<Longrightarrow> \<not> is_space c"
  by (auto simp: is_digit_def is_space_def)

lemma digit_not_sign: "is_digit c \<Longrightarrow> c \<noteq> CHR ''+'' \<and> c \<noteq> CHR ''-'' \<and> c \<noteq> CHR ''x'' \<and> c \<noteq> CHR ''X''"
  by (auto simp: is_digit_def)

lemma takeWhile_all: "\<forall>c\<in>set d. P c \<Longrightarrow> takeWhile P d = d"
  by (induction d) auto

lemma take2_digits: "\<forall>c\<in>set d. is_digit c \<Longrightarrow> take 2 d \<noteq> [a, CHR ''x''] \<and> take 2 d \<noteq> [a, CHR ''X'']"
proof (cases d)
  case Nil then show ?thesis by simp
next
  case (Cons c cs)
  assume a: "\<forall>c\<in>set d. is_digit c"
  show ?thesis
  proof (cases cs)
    case Nil with Cons show ?thesis by simp
  next
    case (Cons c' cs')
    with a \<open>d = c # cs\<close> have "is_digit c'" by simp
    then show ?thesis using Cons \<open>d = c # cs\<close> digit_not_sign by auto
  qed
qed

lemma parseInt_digits:
  assumes "d \<noteq> []" and "\<forall>c\<in>set d. is_digit c"
  shows "parseInt d = Some (int (radix_value 10 d))"
proof -
  obtain c cs where d: "d = c # cs" using assms(1) by (cases d) auto
  have c: "is_digit c" using assms(2) d by simp
  have 1: "dropWhile is_space d = d" using c d digit_not_space by simp
  have 2: "(case d of [] \<Rightarrow> False | c # _ \<Rightarrow> c = CHR ''-'') = False"
    using c d digit_not_sign by simp
  have 3: "(case d of [] \<Rightarrow> d | c # r \<Rightarrow> if c = CHR ''+'' \<or> c = CHR ''-'' then r else d) = d"
    using c d digit_not_sign by simp
  have 4: "(take 2 d = ''0x'' \<or> take 2 d = ''0X'') = False"
    using take2_digits[OF assms(2)] by simp
  have 5: "takeWhile is_digit d = d" using assms(2) by (rule takeWhile_all)
  show ?thesis
    unfolding parseInt_def 1 2 3 4 Let_def if_False 5 using assms(1) by simp
qed

lemma sanity_check_None_iff:
  "sanity_check c = None \<longleftrightarrow>
     (\<exists>f\<in>set (features c). \<not> truthy_str (imageUrl f))
     \<and> (\<exists>f\<in>set (features c). \<not> truthy_num (numReports f))
     \<and> 10 \<le> length (features c)"
  by (auto simp: sanity_check_def find_None_iff)




lemma not_digit_space: "\<not> is_digit CHR '' ''"
  by (simp add: is_digit_def)

lemma takeWhile_digits_then:
  "\<forall>c\<in>set x. is_digit c \<Longrightarrow> takeWhile is_digit (x @ CHR '' '' # r) = x"
  by (simp add: takeWhile_append2 not_digit_space)

lemma dropWhile_digits_then:
  "\<forall>c\<in>set x. is_digit c \<Longrightarrow> dropWhile is_digit (x @ CHR '' '' # r) = CHR '' '' # r"
  by (simp add: dropWhile_append2 not_digit_space)

lemma match_reports_at_shape:
  assumes "x \<noteq> []" "\<forall>c\<in>set x. is_digit c" "n \<noteq> []" "\<forall>c\<in>set n. is_digit c"
  shows "match_reports_at (''Showing '' @ x @ '' of '' @ n @ '' reports'' @ r) = Some n"
proof -
  have 1: "strip_prefix ''Showing '' (''Showing '' @ x @ '' of '' @ n @ '' reports'' @ r)
             = Some (x @ '' of '' @ n @ '' reports'' @ r)"
    by (rule strip_prefix_append)
  have 2: "takeWhile is_digit (x @ '' of '' @ n @ '' reports'' @ r) = x"
    using takeWhile_digits_then[OF assms(2)] by simp
  have 3: "dropWhile is_digit (x @ '' of '' @ n @ '' reports'' @ r) = '' of '' @ n @ '' reports'' @ r"
    using dropWhile_digits_then[OF assms(2)] by simp
  have 4: "strip_prefix '' of '' ('' of '' @ n @ '' reports'' @ r) = Some (n @ '' reports'' @ r)"
    by (rule strip_prefix_append)
  have 5: "takeWhile is_digit (n @ '' reports'' @ r) = n"
    using takeWhile_digits_then[OF assms(4)] by simp
  have 6: "dropWhile is_digit (n @ '' reports'' @ r) = '' reports'' @ r"
    using dropWhile_digits_then[OF assms(4)] by simp
  have 7: "strip_prefix '' reports'' ('' reports'' @ r) = Some r"
    by (rule strip_prefix_append)
  show ?thesis
    unfolding match_reports_at_def 1 option.case 2 3 4 5 6 7 using assms(1,3) by simp
qed

lemma match_reports_at_Some:
  assumes "match_reports_at s = Some d"
  shows "d \<noteq> [] \<and> (\<forall>c\<in>set d. is_digit c)
         \<and> (\<exists>x r. s = ''Showing '' @ x @ '' of '' @ d @ '' reports'' @ r
                  \<and> x \<noteq> [] \<and> (\<forall>c\<in>set x. is_digit c))"
proof -
  from assms obtain r1 where r1: "strip_prefix ''Showing '' s = Some r1"
    by (auto simp: match_reports_at_def split: option.splits)
  from assms r1 have x: "takeWhile is_digit r1 \<noteq> []"
    by (auto simp: match_reports_at_def split: option.splits if_splits)
  from assms r1 x obtain r2 where r2: "strip_prefix '' of '' (dropWhile is_digit r1) = Some r2"
    by (auto simp: match_reports_at_def split: option.splits if_splits)
  from assms r1 x r2 have n: "takeWhile is_digit r2 \<noteq> []"
    by (auto simp: match_reports_at_def split: option.splits if_splits)
  from assms r1 x r2 n obtain r3 where
    r3: "strip_prefix '' reports'' (dropWhile is_digit r2) = Some r3"
    by (auto simp: match_reports_at_def split: option.splits if_splits)
  from assms r1 x r2 n r3 have d: "d = takeWhile is_digit r2"
    by (auto simp: match_reports_at_def split: option.splits if_splits)
  have s: "s = ''Showing '' @ r1" using r1 by (simp only: strip_prefix_Some_iff)
  have e1: "r1 = takeWhile is_digit r1 @ dropWhile is_digit r1" by simp
  have e2: "dropWhile is_digit r1 = '' of '' @ r2" using r2 by (simp only: strip_prefix_Some_iff)
  have e3: "r2 = takeWhile is_digit r2 @ dropWhile is_digit r2" by simp
  have e4: "dropWhile is_digit r2 = '' reports'' @ r3" using r3 by (simp only: strip_prefix_Some_iff)
  have A: "s = ''Showing '' @ takeWhile is_digit r1 @ '' of '' @ d @ '' reports'' @ r3"
    using s e1 e2 e3 e4 d by metis
  have B: "\<forall>c\<in>set d. is_digit c" using d by (auto dest: set_takeWhileD)
  have C: "\<forall>c\<in>set (takeWhile is_digit r1). is_digit c" by (auto dest: set_takeWhileD)
  have "\<exists>x r. s = ''Showing '' @ x @ '' of '' @ d @ '' reports'' @ r
                  \<and> x \<noteq> [] \<and> (\<forall>c\<in>set x. is_digit c)"
    by (rule exI[of _ "takeWhile is_digit r1"], rule exI[of _ r3]) (use A C x in blast)
  then show ?thesis using B n d by simp
qed

lemma exec_reports_Some:
  "exec_reports s = Some d \<Longrightarrow>
     d \<noteq> [] \<and> (\<forall>c\<in>set d. is_digit c)
     \<and> (\<exists>pre x r. s = pre @ ''Showing '' @ x @ '' of '' @ d @ '' reports'' @ r
                  \<and> x \<noteq> [] \<and> (\<forall>c\<in>set x. is_digit c))"
proof (induction s)
  case Nil
  then show ?case by (simp add: match_reports_at_def)
next
  case (Cons c cs)
  show ?case
  proof (cases "match_reports_at (c # cs)")
    case (Some d')
    with Cons.prems have "d' = d" by simp
    with Some match_reports_at_Some[of "c # cs" d] show ?thesis
      by (metis append_Nil)
  next
    case None
    with Cons.prems have "exec_reports cs = Some d" by simp
    from Cons.IH[OF this] obtain pre x r where
      "d \<noteq> []" "\<forall>c\<in>set d. is_digit c"
      "cs = pre @ ''Showing '' @ x @ '' of '' @ d @ '' reports'' @ r"
      "x \<noteq> []" "\<forall>c\<in>set x. is_digit c" by blast
    then have "c # cs = (c # pre) @ ''Showing '' @ x @ '' of '' @ d @ '' reports'' @ r" by simp
    with \<open>d \<noteq> []\<close> \<open>\<forall>c\<in>set d. is_digit c\<close> \<open>x \<noteq> []\<close> \<open>\<forall>c\<in>set x. is_digit c\<close>
    show ?thesis by blast
  qed
qed

lemma exec_reports_found:
  assumes "x \<noteq> []" "\<forall>c\<in>set x. is_digit c" "n \<noteq> []" "\<forall>c\<in>set n. is_digit c"
  shows "exec_reports (pre @ ''Showing '' @ x @ '' of '' @ n @ '' reports'' @ r) \<noteq> None"
proof (induction pre)
  case Nil
  have "match_reports_at (''Showing '' @ x @ '' of '' @ n @ '' reports'' @ r) = Some n"
    using assms by (rule match_reports_at_shape)
  then show ?case by simp
next
  case (Cons c pre)
  then show ?case by (simp split: option.splits)
qed

lemma exec_reports_at_start:
  assumes "x \<noteq> []" "\<forall>c\<in>set x. is_digit c" "n \<noteq> []" "\<forall>c\<in>set n. is_digit c"
  shows "exec_reports (''Showing '' @ x @ '' of '' @ n @ '' reports'' @ r) = Some n"
proof -
  have "match_reports_at (''Showing '' @ x @ '' of '' @ n @ '' reports'' @ r) = Some n"
    using assms by (rule match_reports_at_shape)
  then show ?thesis by simp
qed




lemma attr_src_filter:
  "attr_src (filter P xs) = (case find P xs of None \<Rightarrow> None | Some e \<Rightarrow> src e)"
  by (induction xs) (auto simp: attr_src_def)

lemma attr_src_first_filter:
  "attr_src (take 1 (filter P xs)) = (case find P xs of None \<Rightarrow> None | Some e \<Rightarrow> src e)"
  by (induction xs) (auto simp: attr_src_def)

lemma enrich_imageUrl: "imageUrl (enrich doc f) = image_of doc (imageUrl f)"
  by (simp add: enrich_def image_of_def Let_def split: option.splits)

lemma enrich_numReports:
  "numReports (enrich doc f) =
     (case exec_reports (results_meta doc) of None \<Rightarrow> numReports f
      | Some d \<Rightarrow> Some (int (radix_value 10 d)))"
proof (cases "exec_reports (results_meta doc)")
  case None
  then show ?thesis by (simp add: enrich_def Let_def)
next
  case (Some d)
  from exec_reports_Some[OF Some] have d: "d \<noteq> []" "\<forall>c\<in>set d. is_digit c" by auto
  have "parseInt d = Some (int (radix_value 10 d))" using d by (rule parseInt_digits)
  then show ?thesis using Some d by (simp add: enrich_def Let_def)
qed

lemma enrich_other_fields:
  "fid (enrich doc f) = fid f" "name (enrich doc f) = name f" "url (enrich doc f) = url f"
  "mileNumber (enrich doc f) = mileNumber f" "coordinates (enrich doc f) = coordinates f"
  by (simp_all add: enrich_def Let_def split: option.splits)

lemma unenriched_enrich: "unenriched (enrich doc f) = unenriched f"
  by (simp add: enrich_def unenriched_def Let_def split: option.splits)

lemma parse_row_unenriched: "parse_row w row = Some f \<Longrightarrow> unenriched f = f"
  by (auto simp: parse_row_def unenriched_def Let_def split: option.splits if_splits)

lemma parse_row_Some_iff:
  "(\<exists>f. parse_row w row = Some f) \<longleftrightarrow>
     parseInt (td_text 2 row) \<noteq> None
     \<and> \<not> contains ''never captured on OSCC website'' (td_text 3 row)"
  by (auto simp: parse_row_def Let_def split: option.splits)

lemma parse_row_fields:
  "parse_row w row = Some f \<Longrightarrow>
     parseInt (td_text 2 row) = Some (fid f) \<and> name f = td_text 3 row
     \<and> mileNumber f = fid f \<and> imageUrl f = None \<and> numReports f = None
     \<and> coordinates f = map parseFloat (rev (js_split CHR '','' (td_text 5 row)))
     \<and> url f = ''https://oregonshores.org/mile/mile-'' @ number_to_string (fid f)
                 @ ''-'' @ slugify w (toLowerCase w (name f)) @ ''/''"
  by (auto simp: parse_row_def Let_def split: option.splits if_splits)

lemma process_row_skip: "parse_row w row = None \<Longrightarrow> process_row w row st = (None, st)"
  by (simp add: process_row_def)

lemma process_row_beyond:
  "parse_row w row = Some f \<Longrightarrow> \<not> imagesFetched st < 500 \<Longrightarrow>
     process_row w row st =
       (None, st\<lparr>imagesFetched := imagesFetched st + 1, miles := push f (miles st)\<rparr>)"
  by (simp add: process_row_def Let_def)

lemma process_row_failed:
  "parse_row w row = Some f \<Longrightarrow> imagesFetched st < 500 \<Longrightarrow> fetch w (url f) = None \<Longrightarrow>
     process_row w row st =
       (Some (FetchFailed (url f)),
        st\<lparr>imagesFetched := imagesFetched st + 1, trace := trace st @ [FetchDetail (url f)]\<rparr>)"
  by (simp add: process_row_def Let_def)

lemma process_row_fetched:
  "parse_row w row = Some f \<Longrightarrow> imagesFetched st < 500 \<Longrightarrow> fetch w (url f) = Some doc \<Longrightarrow>
     process_row w row st =
       (None,
        st\<lparr>imagesFetched := imagesFetched st + 1, trace := trace st @ [FetchDetail (url f)],
           miles := push (enrich doc f) (miles st)\<rparr>)"
  by (simp add: process_row_def Let_def)

lemma detail_urls_append: "detail_urls (xs @ ys) = detail_urls xs @ detail_urls ys"
  by (induction xs rule: detail_urls.induct) auto

lemma detail_urls_map: "detail_urls (map FetchDetail us) = us"
  by (induction us) auto

lemma filter_put_map: "filter is_put (map FetchDetail us) = []"
  by (induction us) auto

text \<open>Whatever the outcome, the loop only adds detail requests, no more than the cap leaves.\<close>

lemma rows_loop_trace:
  "rows_loop w rows st = (r, st') \<Longrightarrow>
     \<exists>us. trace st' = trace st @ map FetchDetail us
          \<and> length us \<le> 500 - imagesFetched st
          \<and> (r = None \<longrightarrow> (\<forall>u\<in>set us. fetch w u \<noteq> None))"
proof (induction rows arbitrary: st)
  case Nil
  then show ?case by simp
next
  case (Cons row rest)
  show ?case
  proof (cases "parse_row w row")
    case None
    with Cons.prems have "rows_loop w rest st = (r, st')" by (simp add: process_row_skip)
    from Cons.IH[OF this] show ?thesis .
  next
    case (Some f)
    show ?thesis
    proof (cases "imagesFetched st < 500")
      case False
      let ?s = "st\<lparr>imagesFetched := imagesFetched st + 1, miles := push f (miles st)\<rparr>"
      from Cons.prems Some False have "rows_loop w rest ?s = (r, st')"
        by (simp add: process_row_beyond)
      from Cons.IH[OF this] False show ?thesis by simp
    next
      case True
      show ?thesis
      proof (cases "fetch w (url f)")
        case None
        with Cons.prems Some True have
          "r = Some (FetchFailed (url f))"
          "st' = st\<lparr>imagesFetched := imagesFetched st + 1,
                     trace := trace st @ [FetchDetail (url f)]\<rparr>"
          by (simp_all add: process_row_failed)
        then have "trace st' = trace st @ map FetchDetail [url f]" by simp
        moreover have "length [url f] \<le> 500 - imagesFetched st" using True by simp
        ultimately show ?thesis using \<open>r = Some (FetchFailed (url f))\<close> by blast
      next
        case (Some doc)
        let ?s = "st\<lparr>imagesFetched := imagesFetched st + 1,
                      trace := trace st @ [FetchDetail (url f)],
                      miles := push (enrich doc f) (miles st)\<rparr>"
        from Cons.prems \<open>parse_row w row = Some f\<close> True Some
        have "rows_loop w rest ?s = (r, st')" by (simp add: process_row_fetched)
        from Cons.IH[OF this] obtain us where
          us: "trace st' = trace ?s @ map FetchDetail us"
              "length us \<le> 500 - imagesFetched ?s"
              "r = None \<longrightarrow> (\<forall>u\<in>set us. fetch w u \<noteq> None)" by blast
        have "trace st' = trace st @ map FetchDetail (url f # us)" using us(1) by simp
        moreover have "length (url f # us) \<le> 500 - imagesFetched st" using us(2) True by simp
        moreover have "r = None \<longrightarrow> (\<forall>u\<in>set (url f # us). fetch w u \<noteq> None)"
          using us(3) Some by simp
        ultimately show ?thesis by blast
      qed
    qed
  qed
qed

text \<open>A loop that ends normally: what it pushed, requested and counted.\<close>

lemma rows_loop_ok:
  "rows_loop w rows st = (None, st') \<Longrightarrow>
     features (miles st') =
       features (miles st)
       @ map (\<lambda>f. enrich (the (fetch w (url f))) f)
           (take (500 - imagesFetched st) (List.map_filter (parse_row w) rows))
       @ drop (500 - imagesFetched st) (List.map_filter (parse_row w) rows)
     \<and> trace st' =
         trace st @ map FetchDetail
           (map url (take (500 - imagesFetched st) (List.map_filter (parse_row w) rows)))
     \<and> updatedAt (miles st') = updatedAt (miles st)"
proof (induction rows arbitrary: st)
  case Nil
  then show ?case by simp
next
  case (Cons row rest)
  show ?case
  proof (cases "parse_row w row")
    case None
    with Cons.prems have "rows_loop w rest st = (None, st')" by (simp add: process_row_skip)
    from Cons.IH[OF this] None show ?thesis by simp
  next
    case (Some f)
    show ?thesis
    proof (cases "imagesFetched st < 500")
      case False
      let ?s = "st\<lparr>imagesFetched := imagesFetched st + 1, miles := push f (miles st)\<rparr>"
      from Cons.prems Some False have "rows_loop w rest ?s = (None, st')"
        by (simp add: process_row_beyond)
      from Cons.IH[OF this] False Some show ?thesis
        by (simp add: push_def)
    next
      case True
      then obtain k where k: "500 - imagesFetched st = Suc k" "500 - (imagesFetched st + 1) = k"
        by (cases "500 - imagesFetched st") auto
      show ?thesis
      proof (cases "fetch w (url f)")
        case None
        with Cons.prems Some True show ?thesis by (simp add: process_row_failed)
      next
        case (Some doc)
        let ?s = "st\<lparr>imagesFetched := imagesFetched st + 1,
                      trace := trace st @ [FetchDetail (url f)],
                      miles := push (enrich doc f) (miles st)\<rparr>"
        from Cons.prems \<open>parse_row w row = Some f\<close> True Some
        have "rows_loop w rest ?s = (None, st')" by (simp add: process_row_fetched)
        from Cons.IH[OF this] \<open>parse_row w row = Some f\<close> Some k show ?thesis
          by (simp add: push_def)
      qed
    qed
  qed
qed




lemma image_of_find:
  "image_of doc old =
     (case find is_mile_image (imgs doc) of
        None \<Rightarrow>
          (case find is_report_image (imgs doc) of
             None \<Rightarrow> old
           | Some e \<Rightarrow> if truthy_str (src e) then src e else old)
      | Some p \<Rightarrow>
          if truthy_str (src p) then src p
          else
            (case find is_report_image (imgs doc) of
               None \<Rightarrow> old
             | Some e \<Rightarrow> if truthy_str (src e) then src e else old))"
  unfolding image_of_def attr_src_filter attr_src_first_filter
  by (simp add: truthy_str_def split: option.splits)

lemma image_of_nonempty: "old \<noteq> Some [] \<Longrightarrow> image_of doc old \<noteq> Some []"
  by (auto simp: image_of_def truthy_str_def split: option.splits if_splits)

lemma attr_src_blank:
  "truthy_str (attr_src (filter P (pre @ e\<lparr>src := Some []\<rparr> # post))) \<Longrightarrow>
     (\<And>v. P (e\<lparr>src := v\<rparr>) = P e) \<Longrightarrow>
     attr_src (filter P (pre @ e\<lparr>src := Some []\<rparr> # post))
       = attr_src (filter P (pre @ e\<lparr>src := None\<rparr> # post))"
  by (cases "filter P pre") (auto simp: attr_src_def truthy_str_def)

lemma truthy_attr_src_blank:
  "(\<And>v. P (e\<lparr>src := v\<rparr>) = P e) \<Longrightarrow>
     truthy_str (attr_src (filter P (pre @ e\<lparr>src := Some []\<rparr> # post)))
       = truthy_str (attr_src (filter P (pre @ e\<lparr>src := None\<rparr> # post)))"
  by (cases "filter P pre") (auto simp: attr_src_def truthy_str_def)




lemma attr_src_take1: "attr_src (take 1 xs) = attr_src xs"
  by (cases xs) (simp_all add: attr_src_def)

lemma is_mile_image_src: "is_mile_image (e\<lparr>src := v\<rparr>) = is_mile_image e"
  by (simp add: is_mile_image_def)

lemma is_report_image_src: "is_report_image (e\<lparr>src := v\<rparr>) = is_report_image e"
  by (simp add: is_report_image_def)

lemma image_of_blank:
  "image_of (doc\<lparr>imgs := pre @ e\<lparr>src := Some []\<rparr> # post\<rparr>) old
     = image_of (doc\<lparr>imgs := pre @ e\<lparr>src := None\<rparr> # post\<rparr>) old"
proof -
  let ?a = "pre @ e\<lparr>src := Some []\<rparr> # post" and ?b = "pre @ e\<lparr>src := None\<rparr> # post"
  have m: "truthy_str (attr_src (filter is_mile_image ?a))
             = truthy_str (attr_src (filter is_mile_image ?b))"
    by (rule truthy_attr_src_blank) (rule is_mile_image_src)
  have r: "truthy_str (attr_src (filter is_report_image ?a))
             = truthy_str (attr_src (filter is_report_image ?b))"
    by (rule truthy_attr_src_blank) (rule is_report_image_src)
  have mv: "truthy_str (attr_src (filter is_mile_image ?a)) \<Longrightarrow>
              attr_src (filter is_mile_image ?a) = attr_src (filter is_mile_image ?b)"
    by (rule attr_src_blank) (simp_all add: is_mile_image_src)
  have rv: "truthy_str (attr_src (filter is_report_image ?a)) \<Longrightarrow>
              attr_src (filter is_report_image ?a) = attr_src (filter is_report_image ?b)"
    by (rule attr_src_blank) (simp_all add: is_report_image_src)
  show ?thesis
    unfolding image_of_def attr_src_take1 using m r mv rv by auto
qed

lemma enrich_more: "feature.more (enrich doc f) = feature.more f"
  by (simp add: enrich_def Let_def split: option.splits)

lemma enrich_alt:
  "enrich doc f =
     f\<lparr>imageUrl := image_of doc (imageUrl f),
       numReports := (case exec_reports (results_meta doc) of None \<Rightarrow> numReports f
                      | Some d \<Rightarrow> Some (int (radix_value 10 d)))\<rparr>"
  by (rule feature.equality)
     (simp_all add: enrich_imageUrl enrich_numReports enrich_other_fields enrich_more)

lemma enrich_blank:
  "enrich (doc\<lparr>imgs := pre @ e\<lparr>src := Some []\<rparr> # post\<rparr>) f
     = enrich (doc\<lparr>imgs := pre @ e\<lparr>src := None\<rparr> # post\<rparr>) f"
  unfolding enrich_alt image_of_blank by simp

lemma map_filter_id_name:
  "map (\<lambda>f. (fid f, name f)) (List.map_filter (parse_row w) rows) =
     List.map_filter
       (\<lambda>row. case parseInt (td_text 2 row) of None \<Rightarrow> None
              | Some i \<Rightarrow>
                  if contains ''never captured on OSCC website'' (td_text 3 row) then None
                  else Some (i, td_text 3 row)) rows"
proof (induction rows)
  case Nil
  show ?case by simp
next
  case (Cons row rows)
  show ?case
  proof (cases "parse_row w row")
    case None
    then have "parseInt (td_text 2 row) = None
               \<or> contains ''never captured on OSCC website'' (td_text 3 row)"
      using parse_row_Some_iff[of w row] by auto
    with None Cons.IH show ?thesis by (auto split: option.splits)
  next
    case (Some f)
    from parse_row_fields[OF Some] parse_row_Some_iff[of w row] Some
    have "parseInt (td_text 2 row) = Some (fid f)" "name f = td_text 3 row"
         "\<not> contains ''never captured on OSCC website'' (td_text 3 row)" by auto
    with Some Cons.IH show ?thesis by simp
  qed
qed

lemma map_take_drop:
  assumes "\<And>x. h (e x) = h x"
  shows "map h (map e (take k ps) @ drop k ps) = map h ps"
proof -
  have "map h (map e (take k ps)) = map h (take k ps)"
    using assms by (induction "take k ps" arbitrary: k ps) (simp_all add: comp_def)
  then have "map h (map e (take k ps) @ drop k ps) = map h (take k ps) @ map h (drop k ps)"
    by (simp only: map_append)
  also have "\<dots> = map h (take k ps @ drop k ps)" by (simp only: map_append)
  also have "\<dots> = map h ps" by (simp only: append_take_drop_id)
  finally show ?thesis .
qed

lemma map_filter_unenriched:
  "map unenriched (List.map_filter (parse_row w) rows) = List.map_filter (parse_row w) rows"
  by (induction rows) (auto simp: parse_row_unenriched split: option.splits)

lemma map_filter_bare:
  "f \<in> set (List.map_filter (parse_row w) rows) \<Longrightarrow> imageUrl f = None \<and> numReports f = None"
  by (induction rows) (auto simp: parse_row_fields split: option.splits)


lemma scheduled_no_table:
  "fetch w sheet_url = None \<Longrightarrow>
     scheduled w store = (Some (FetchFailed sheet_url), store, [FetchTable sheet_url])"
  by (simp add: scheduled_def)

lemma scheduled_loop_failed:
  "fetch w sheet_url = Some body \<Longrightarrow>
   rows_loop w (table_rows body) (initial_state w) = (Some e, st) \<Longrightarrow>
     scheduled w store = (Some e, store, trace st)"
  by (simp add: scheduled_def)

lemma scheduled_rejected:
  "fetch w sheet_url = Some body \<Longrightarrow>
   rows_loop w (table_rows body) (initial_state w) = (None, st) \<Longrightarrow>
   sanity_check (miles st) = Some e \<Longrightarrow>
     scheduled w store = (Some e, store, trace st)"
  by (simp add: scheduled_def)

lemma scheduled_saved:
  "fetch w sheet_url = Some body \<Longrightarrow>
   rows_loop w (table_rows body) (initial_state w) = (None, st) \<Longrightarrow>
   sanity_check (miles st) = None \<Longrightarrow>
     scheduled w store =
       (None, store(''miles'' \<mapsto> stringify w (miles st)),
        trace st @ [KvPut ''miles'' (stringify w (miles st))])"
  by (simp add: scheduled_def)

lemma js_split_no_sep: "sep \<notin> set s \<Longrightarrow> js_split sep s = [s]"
  by (induction s) auto

lemma js_split_at_sep:
  "sep \<notin> set a \<Longrightarrow> js_split sep (a @ sep # b) = a # js_split sep b"
  by (induction a) auto

lemma fetch_None_iff: "fetch w u = None \<longleftrightarrow> http w u = None"
  by (simp add: fetch_def split: option.splits)

lemma fetch_status_update:
  "fetch (w\<lparr>http := \<lambda>u. map_option (\<lambda>a. a\<lparr>status := g u a\<rparr>) (http w u)\<rparr>) u = fetch w u"
  by (simp add: fetch_def split: option.splits)

lemma parse_row_cong:
  assumes "slugify w' = slugify w" "toLowerCase w' = toLowerCase w"
  shows "parse_row w' row = parse_row w row"
  unfolding parse_row_def assms ..

lemma process_row_cong:
  assumes "\<And>u. fetch w' u = fetch w u" "slugify w' = slugify w" "toLowerCase w' = toLowerCase w"
  shows "process_row w' row st = process_row w row st"
  unfolding process_row_def parse_row_cong[OF assms(2,3)] assms(1) ..

lemma rows_loop_cong:
  assumes "\<And>u. fetch w' u = fetch w u" "slugify w' = slugify w" "toLowerCase w' = toLowerCase w"
  shows "rows_loop w' rows st = rows_loop w rows st"
  by (induction rows arbitrary: st) (simp_all add: process_row_cong[OF assms] split: prod.splits option.splits)

lemma scheduled_cong:
  assumes "\<And>u. fetch w' u = fetch w u" "slugify w' = slugify w" "toLowerCase w' = toLowerCase w"
    "now w' = now w" "stringify w' = stringify w"
  shows "scheduled w' store = scheduled w store"
  unfolding scheduled_def initial_state_def assms(1,4,5) rows_loop_cong[OF assms(1,2,3)] ..

lemma scheduled_status_update:
  "scheduled (w\<lparr>http := \<lambda>u. map_option (\<lambda>a. a\<lparr>status := g u a\<rparr>) (http w u)\<rparr>) store
     = scheduled w store"
  by (rule scheduled_cong) (simp_all add: fetch_status_update)

text \<open>One occurrence of the pattern, read at its start.\<close>

lemma match_reports_at_iff:
  "match_reports_at s = Some n \<longleftrightarrow>
     (\<exists>x post. s = ''Showing '' @ x @ '' of '' @ n @ '' reports'' @ post
        \<and> x \<noteq> [] \<and> (\<forall>c\<in>set x. is_digit c) \<and> n \<noteq> [] \<and> (\<forall>c\<in>set n. is_digit c))"
proof
  assume "match_reports_at s = Some n"
  from match_reports_at_Some[OF this] show
    "\<exists>x post. s = ''Showing '' @ x @ '' of '' @ n @ '' reports'' @ post
        \<and> x \<noteq> [] \<and> (\<forall>c\<in>set x. is_digit c) \<and> n \<noteq> [] \<and> (\<forall>c\<in>set n. is_digit c)"
    by blast
next
  assume "\<exists>x post. s = ''Showing '' @ x @ '' of '' @ n @ '' reports'' @ post
        \<and> x \<noteq> [] \<and> (\<forall>c\<in>set x. is_digit c) \<and> n \<noteq> [] \<and> (\<forall>c\<in>set n. is_digit c)"
  then obtain x post where "s = ''Showing '' @ x @ '' of '' @ n @ '' reports'' @ post"
    "x \<noteq> []" "\<forall>c\<in>set x. is_digit c" "n \<noteq> []" "\<forall>c\<in>set n. is_digit c" by blast
  then show "match_reports_at s = Some n" using match_reports_at_shape[of x n post] by simp
qed

text \<open>\<^verbatim>\<open>exec\<close> returns the match at the first position that has one.\<close>

lemma exec_reports_leftmost:
  "match_reports_at r = Some n \<Longrightarrow>
   (\<And>pre' r'. pre @ r = pre' @ r' \<Longrightarrow> length pre' < length pre \<Longrightarrow> match_reports_at r' = None)
   \<Longrightarrow> exec_reports (pre @ r) = Some n"
proof (induction pre)
  case Nil
  then show ?case by (cases r) simp_all
next
  case (Cons p ps)
  have "match_reports_at ((p # ps) @ r) = None"
    using Cons.prems(2)[of "[]" "(p # ps) @ r"] by simp
  then have 1: "exec_reports ((p # ps) @ r) = exec_reports (ps @ r)" by simp
  have "exec_reports (ps @ r) = Some n"
  proof (rule Cons.IH[OF Cons.prems(1)])
    fix pre' r'
    assume "ps @ r = pre' @ r'" "length pre' < length ps"
    then show "match_reports_at r' = None"
      using Cons.prems(2)[of "p # pre'" r'] by simp
  qed
  with 1 show ?case by simp
qed

lemma exec_reports_Some_leftmost:
  "exec_reports s = Some n \<Longrightarrow>
     \<exists>pre r. s = pre @ r \<and> match_reports_at r = Some n
       \<and> (\<forall>pre' r'. s = pre' @ r' \<and> length pre' < length pre \<longrightarrow> match_reports_at r' = None)"
proof (induction s)
  case Nil
  then show ?case by (simp add: match_reports_at_def)
next
  case (Cons c cs)
  show ?case
  proof (cases "match_reports_at (c # cs)")
    case (Some d)
    with Cons.prems have "d = n" by simp
    with Some have "c # cs = [] @ (c # cs) \<and> match_reports_at (c # cs) = Some n
       \<and> (\<forall>pre' r'. c # cs = pre' @ r' \<and> length pre' < length ([]::string)
             \<longrightarrow> match_reports_at r' = None)" by simp
    then show ?thesis by blast
  next
    case None
    with Cons.prems have "exec_reports cs = Some n" by simp
    from Cons.IH[OF this] obtain pre r where
      pr: "cs = pre @ r" "match_reports_at r = Some n"
          "\<forall>pre' r'. cs = pre' @ r' \<and> length pre' < length pre \<longrightarrow> match_reports_at r' = None"
      by blast
    have "\<forall>pre' r'. c # cs = pre' @ r' \<and> length pre' < length (c # pre)
            \<longrightarrow> match_reports_at r' = None"
    proof (intro allI impI)
      fix pre' r'
      assume h: "c # cs = pre' @ r' \<and> length pre' < length (c # pre)"
      show "match_reports_at r' = None"
      proof (cases pre')
        case Nil
        with h None show ?thesis by simp
      next
        case (Cons a as)
        with h have "cs = as @ r'" "length as < length pre" by simp_all
        with pr(3) show ?thesis by blast
      qed
    qed
    moreover have "c # cs = (c # pre) @ r" using pr(1) by simp
    ultimately show ?thesis using pr(2) by blast
  qed
qed

section \<open>Sample runs, evaluated\<close>

lemmas fixture_defs =
  test_world_def http_world_def mostly_errors_def ten_rows_def sample_rows_def header_row_def mile7_row_def sentinel_row_def
  mile9_row_def data_row_def plain_page_def image_page_def reports_page_def full_page_def
  fallback_page_def two_counts_page_def mile_img_def decorative_img_def report_img_def first_mile_only_def
  sample_feature_def near_cap_def sheet_url_def

lemmas number_defs =
  parseInt_def parseFloat_def exponent_part_def is_space_def is_digit_def is_hex_digit_def
  radix_value_def digit_value_def number_to_string_def dec_nat.simps Let_def

lemmas run_defs =
  scheduled_def fetch_def initial_state_def process_row_def parse_row_def td_text_def enrich_def
  attr_src_def is_mile_image_def is_report_image_def truthy_str_def truthy_num_def
  sanity_check_def push_def match_reports_at_def

lemma mixed_run:
  "scheduled (test_world ten_rows (first_mile_only full_page)) S =
     (None,
      S(''miles'' \<mapsto> ''2024-01-01T03:00:00.000Z;mile;mile;mile;mile;mile;mile;mile;mile;mile;mile''),
      [FetchTable sheet_url,
       FetchDetail ''https://oregonshores.org/mile/mile-21-mile/'',
       FetchDetail ''https://oregonshores.org/mile/mile-22-mile/'',
       FetchDetail ''https://oregonshores.org/mile/mile-23-mile/'',
       FetchDetail ''https://oregonshores.org/mile/mile-24-mile/'',
       FetchDetail ''https://oregonshores.org/mile/mile-25-mile/'',
       FetchDetail ''https://oregonshores.org/mile/mile-26-mile/'',
       FetchDetail ''https://oregonshores.org/mile/mile-27-mile/'',
       FetchDetail ''https://oregonshores.org/mile/mile-28-mile/'',
       FetchDetail ''https://oregonshores.org/mile/mile-29-mile/'',
       FetchDetail ''https://oregonshores.org/mile/mile-30-mile/'',
       KvPut ''miles'' ''2024-01-01T03:00:00.000Z;mile;mile;mile;mile;mile;mile;mile;mile;mile;mile''])"
  by (simp add: run_defs fixture_defs number_defs)

lemma failing_run:
  "scheduled (test_world sample_rows (\<lambda>u. None)) S =
     (Some (FetchFailed ''https://oregonshores.org/mile/mile-7-neahkahnie/''), S,
      [FetchTable sheet_url, FetchDetail ''https://oregonshores.org/mile/mile-7-neahkahnie/''])"
  by (simp add: run_defs fixture_defs number_defs)

lemma near_cap_run:
  "rows_loop (test_world sample_rows (\<lambda>u. Some fallback_page)) sample_rows near_cap =
     (None,
      \<lparr> imagesFetched = 501,
        miles = \<lparr> updatedAt = ''2024-01-01T03:00:00.000Z'',
          features =
            [sample_feature,
             \<lparr> fid = 7, name = ''neahkahnie'',
               url = ''https://oregonshores.org/mile/mile-7-neahkahnie/'',
               imageUrl = Some ''report.jpg'', numReports = Some 120, mileNumber = 7,
               coordinates = [Finite (- 124), Finite (441 / 10)] \<rparr>,
             \<lparr> fid = 9, name = ''nine'', url = ''https://oregonshores.org/mile/mile-9-nine/'',
               imageUrl = None, numReports = None, mileNumber = 9,
               coordinates = [NaN, NaN] \<rparr>] \<rparr>,
        trace = [FetchTable sheet_url,
                 FetchDetail ''https://oregonshores.org/mile/mile-7-neahkahnie/''] \<rparr>)"
  by (simp add: run_defs fixture_defs number_defs)

lemma plain_run:
  "scheduled (test_world ten_rows (\<lambda>u. Some plain_page)) S =
     (None,
      S(''miles'' \<mapsto> ''2024-01-01T03:00:00.000Z;mile;mile;mile;mile;mile;mile;mile;mile;mile;mile''),
      [FetchTable sheet_url,
       FetchDetail ''https://oregonshores.org/mile/mile-21-mile/'',
       FetchDetail ''https://oregonshores.org/mile/mile-22-mile/'',
       FetchDetail ''https://oregonshores.org/mile/mile-23-mile/'',
       FetchDetail ''https://oregonshores.org/mile/mile-24-mile/'',
       FetchDetail ''https://oregonshores.org/mile/mile-25-mile/'',
       FetchDetail ''https://oregonshores.org/mile/mile-26-mile/'',
       FetchDetail ''https://oregonshores.org/mile/mile-27-mile/'',
       FetchDetail ''https://oregonshores.org/mile/mile-28-mile/'',
       FetchDetail ''https://oregonshores.org/mile/mile-29-mile/'',
       FetchDetail ''https://oregonshores.org/mile/mile-30-mile/'',
       KvPut ''miles'' ''2024-01-01T03:00:00.000Z;mile;mile;mile;mile;mile;mile;mile;mile;mile;mile''])"
  by (simp add: run_defs fixture_defs number_defs)

lemma image_run:
  "fst (scheduled (test_world ten_rows (\<lambda>u. Some image_page)) S) = Some NoImages
   \<and> fst (snd (scheduled (test_world ten_rows (\<lambda>u. Some image_page)) S)) = S"
  by (simp add: run_defs fixture_defs number_defs)

lemma image_first_run:
  "fst (scheduled (test_world ten_rows (first_mile_only image_page)) S) = None
   \<and> fst (snd (scheduled (test_world ten_rows (first_mile_only image_page)) S)) =
       S(''miles'' \<mapsto> ''2024-01-01T03:00:00.000Z;mile;mile;mile;mile;mile;mile;mile;mile;mile;mile'')"
  by (simp add: run_defs fixture_defs number_defs)

lemma reports_run:
  "fst (scheduled (test_world ten_rows (\<lambda>u. Some reports_page)) S) = Some NoReports
   \<and> fst (snd (scheduled (test_world ten_rows (\<lambda>u. Some reports_page)) S)) = S"
  by (simp add: run_defs fixture_defs number_defs)

lemma full_run:
  "fst (scheduled (test_world ten_rows (\<lambda>u. Some full_page)) S) = Some NoImages
   \<and> fst (snd (scheduled (test_world ten_rows (\<lambda>u. Some full_page)) S)) = S"
  by (simp add: run_defs fixture_defs number_defs)

lemma error_status_run:
  "scheduled (http_world ten_rows mostly_errors) S =
     (None,
      S(''miles'' \<mapsto> ''2024-01-01T03:00:00.000Z;mile;mile;mile;mile;mile;mile;mile;mile;mile;mile''),
      [FetchTable sheet_url,
       FetchDetail ''https://oregonshores.org/mile/mile-21-mile/'',
       FetchDetail ''https://oregonshores.org/mile/mile-22-mile/'',
       FetchDetail ''https://oregonshores.org/mile/mile-23-mile/'',
       FetchDetail ''https://oregonshores.org/mile/mile-24-mile/'',
       FetchDetail ''https://oregonshores.org/mile/mile-25-mile/'',
       FetchDetail ''https://oregonshores.org/mile/mile-26-mile/'',
       FetchDetail ''https://oregonshores.org/mile/mile-27-mile/'',
       FetchDetail ''https://oregonshores.org/mile/mile-28-mile/'',
       FetchDetail ''https://oregonshores.org/mile/mile-29-mile/'',
       FetchDetail ''https://oregonshores.org/mile/mile-30-mile/'',
       KvPut ''miles'' ''2024-01-01T03:00:00.000Z;mile;mile;mile;mile;mile;mile;mile;mile;mile;mile''])"
  by (simp add: run_defs fixture_defs number_defs)

lemma error_status_loop:
  "fst (rows_loop (http_world ten_rows mostly_errors) ten_rows
          (initial_state (http_world ten_rows mostly_errors))) = None
   \<and> map imageUrl (features (miles (snd (rows_loop (http_world ten_rows mostly_errors) ten_rows
          (initial_state (http_world ten_rows mostly_errors))))))
       = [Some ''a.jpg'', None, None, None, None, None, None, None, None, None]
   \<and> map numReports (features (miles (snd (rows_loop (http_world ten_rows mostly_errors)
          ten_rows (initial_state (http_world ten_rows mostly_errors))))))
       = [Some 47, None, None, None, None, None, None, None, None, None]"
  by (simp add: run_defs fixture_defs number_defs)

section \<open>The claims\<close>

text \<open>
  Claim C1 (image coverage gate). The claim: a collection in which no feature carries an
  image URL is rejected, and the image failure is not raised when some feature carries
  one. The check on line 241 looks for a feature \<^emph>\<open>without\<close> an image and throws when
  there is none. So a run over ten miles whose detail pages show no image at all is
  saved, and a run in which every mile has an image throws ``No images found''.
\<close>

theorem no_image_gate_inverted:
  "fst (scheduled (test_world ten_rows (\<lambda>u. Some plain_page)) [''miles'' \<mapsto> ''old'']) = None
   \<and> fst (snd (scheduled (test_world ten_rows (\<lambda>u. Some plain_page)) [''miles'' \<mapsto> ''old'']))
        ''miles''
       = Some ''2024-01-01T03:00:00.000Z;mile;mile;mile;mile;mile;mile;mile;mile;mile;mile''
   \<and> fst (scheduled (test_world ten_rows (\<lambda>u. Some image_page)) [''miles'' \<mapsto> ''old''])
       = Some NoImages"
  by (simp add: plain_run image_run)

text \<open>
  Claim C2 (report coverage gate). The claim: a collection in which no feature carries a
  report count is rejected, and the report failure is not raised when some feature
  carries one. The check on line 245 looks for a feature \<^emph>\<open>without\<close> a report count and
  throws when there is none. So a run in which one mile has an image and no mile has a
  report count is saved, and a run in which every mile has a report count (and none an
  image) throws ``No reports found''.
\<close>

theorem no_report_gate_inverted:
  "fst (scheduled (test_world ten_rows (first_mile_only image_page)) [''miles'' \<mapsto> ''old''])
     = None
   \<and> fst (snd (scheduled (test_world ten_rows (first_mile_only image_page))
          [''miles'' \<mapsto> ''old''])) ''miles''
       = Some ''2024-01-01T03:00:00.000Z;mile;mile;mile;mile;mile;mile;mile;mile;mile;mile''
   \<and> fst (scheduled (test_world ten_rows (\<lambda>u. Some reports_page)) [''miles'' \<mapsto> ''old''])
       = Some NoReports"
  by (simp add: image_first_run reports_run)

text \<open>
  Claim C3 (verdict against the three thresholds). The claim: the collection is rejected
  when it has no image, no report count or fewer than ten features, and accepted when it
  meets all three thresholds. A run over ten miles that all have an image and a report
  count meets the three thresholds and is rejected; a collection of ten features with
  neither images nor report counts is accepted.
\<close>

theorem verdict_differs_from_thresholds:
  "fst (scheduled (test_world ten_rows (\<lambda>u. Some full_page)) [''miles'' \<mapsto> ''old''])
     = Some NoImages
   \<and> sanity_check
        \<lparr> updatedAt = ''2024-01-01T03:00:00.000Z'',
          features = map (\<lambda>i. sample_feature\<lparr>fid := i, mileNumber := i\<rparr>)
                       [21, 22, 23, 24, 25, 26, 27, 28, 29, 30] \<rparr> = None
   \<and> sanity_check
        \<lparr> updatedAt = ''2024-01-01T03:00:00.000Z'',
          features = map (\<lambda>i. sample_feature\<lparr>fid := i, mileNumber := i,
                                  imageUrl := Some ''a.jpg'', numReports := Some 47\<rparr>)
                       [21, 22, 23, 24, 25, 26, 27, 28, 29, 30] \<rparr> = Some NoImages"
  by (simp add: full_run sanity_check_def sample_feature_def truthy_str_def truthy_num_def)

text \<open>
  Claim C4 (nothing is saved by a run that throws), as amended. Whenever \<^verbatim>\<open>scheduled\<close>
  throws, be it one of the checks of lines 241 to 253 or a request whose promise rejects,
  the store is left as it was and no \<^verbatim>\<open>put\<close> was made; a run in which the promise of
  some request rejected does throw; a run makes at most one \<^verbatim>\<open>put\<close>, and when it makes
  one, nothing was thrown, the \<^verbatim>\<open>put\<close> is its last action, it comes after the checks let
  the collection through, and the store changes at the key \<^verbatim>\<open>miles\<close> only. The status of
  a response plays no part: rewriting every status leaves the run as it is, so an answer
  with an error status is not a failed request.
\<close>

theorem put_only_after_all_checks:
  assumes "scheduled w store = (r, store', evs)"
  shows "(r \<noteq> None \<longrightarrow> store' = store \<and> filter is_put evs = [])
       \<and> length (filter is_put evs) \<le> 1
       \<and> ((\<exists>u. (FetchTable u \<in> set evs \<or> FetchDetail u \<in> set evs) \<and> http w u = None)
            \<longrightarrow> r \<noteq> None)
       \<and> (filter is_put evs \<noteq> [] \<longrightarrow>
            r = None
            \<and> (\<exists>c pre. sanity_check c = None \<and> filter is_put pre = []
                  \<and> evs = pre @ [KvPut ''miles'' (stringify w c)]
                  \<and> store' = store(''miles'' \<mapsto> stringify w c)))
       \<and> scheduled (w\<lparr>http := \<lambda>u. map_option (\<lambda>a. a\<lparr>status := g u a\<rparr>) (http w u)\<rparr>) store
           = (r, store', evs)"
proof -
  have S: "scheduled (w\<lparr>http := \<lambda>u. map_option (\<lambda>a. a\<lparr>status := g u a\<rparr>) (http w u)\<rparr>) store
             = (r, store', evs)"
    using assms by (simp only: scheduled_status_update)
  have M: "(r \<noteq> None \<longrightarrow> store' = store \<and> filter is_put evs = [])
       \<and> length (filter is_put evs) \<le> 1
       \<and> ((\<exists>u. (FetchTable u \<in> set evs \<or> FetchDetail u \<in> set evs) \<and> fetch w u = None)
            \<longrightarrow> r \<noteq> None)
       \<and> (filter is_put evs \<noteq> [] \<longrightarrow>
            r = None
            \<and> (\<exists>c pre. sanity_check c = None \<and> filter is_put pre = []
                  \<and> evs = pre @ [KvPut ''miles'' (stringify w c)]
                  \<and> store' = store(''miles'' \<mapsto> stringify w c)))"
  proof (cases "fetch w sheet_url")
    case None
    from assms scheduled_no_table[OF None, of store]
    have "r = Some (FetchFailed sheet_url)" "store' = store" "evs = [FetchTable sheet_url]"
      by simp_all
    then show ?thesis by simp
  next
    case (Some body)
    obtain r0 st where loop: "rows_loop w (table_rows body) (initial_state w) = (r0, st)"
      by (cases "rows_loop w (table_rows body) (initial_state w)") auto
    from rows_loop_trace[OF loop] obtain us where
      us: "trace st = FetchTable sheet_url # map FetchDetail us"
          "r0 = None \<longrightarrow> (\<forall>u\<in>set us. fetch w u \<noteq> None)"
      by (auto simp: initial_state_def)
    have noput: "filter is_put (trace st) = []" using us(1) by (simp add: filter_put_map)
    show ?thesis
    proof (cases r0)
      case (Some e)
      from assms scheduled_loop_failed[OF \<open>fetch w sheet_url = Some body\<close> loop[unfolded Some], of store]
      have "r = Some e" "store' = store" "evs = trace st" by simp_all
      then show ?thesis using noput by simp
    next
      case None
      note loop' = loop[unfolded None]
      have fetched: "\<forall>u. (FetchTable u \<in> set (trace st) \<or> FetchDetail u \<in> set (trace st))
                       \<longrightarrow> fetch w u \<noteq> None"
        using us None \<open>fetch w sheet_url = Some body\<close> by auto
      show ?thesis
      proof (cases "sanity_check (miles st)")
        case (Some e)
        from assms scheduled_rejected[OF \<open>fetch w sheet_url = Some body\<close> loop' Some, of store]
        have "r = Some e" "store' = store" "evs = trace st" by simp_all
        then show ?thesis using noput by simp
      next
        case None
        from assms scheduled_saved[OF \<open>fetch w sheet_url = Some body\<close> loop' None, of store]
        have res: "r = None" "store' = store(''miles'' \<mapsto> stringify w (miles st))"
             "evs = trace st @ [KvPut ''miles'' (stringify w (miles st))]" by simp_all
        have a: "length (filter is_put evs) \<le> 1" using res(3) noput by simp
        have b: "(\<exists>u. (FetchTable u \<in> set evs \<or> FetchDetail u \<in> set evs) \<and> fetch w u = None)
                   \<longrightarrow> r \<noteq> None"
          using fetched res(3) by auto
        have c: "\<exists>c pre. sanity_check c = None \<and> filter is_put pre = []
                  \<and> evs = pre @ [KvPut ''miles'' (stringify w c)]
                  \<and> store' = store(''miles'' \<mapsto> stringify w c)"
          using None noput res by blast
        show ?thesis using res(1) a b c by simp
      qed
    qed
  qed
  from M S show ?thesis unfolding fetch_None_iff by blast
qed

theorem put_only_after_all_checks_witness:
  "fst (scheduled (test_world sample_rows (\<lambda>u. None)) [''miles'' \<mapsto> ''old''])
     = Some (FetchFailed ''https://oregonshores.org/mile/mile-7-neahkahnie/'')
   \<and> fst (snd (scheduled (test_world sample_rows (\<lambda>u. None)) [''miles'' \<mapsto> ''old'']))
       = [''miles'' \<mapsto> ''old'']
   \<and> filter is_put (snd (snd (scheduled (test_world sample_rows (\<lambda>u. None))
         [''miles'' \<mapsto> ''old'']))) = []
   \<and> fst (scheduled (test_world ten_rows (first_mile_only full_page)) [''miles'' \<mapsto> ''old''])
       = None
   \<and> length (filter is_put (snd (snd (scheduled (test_world ten_rows (first_mile_only full_page))
         [''miles'' \<mapsto> ''old''])))) = 1
   \<and> (\<exists>c. sanity_check c = None
          \<and> fst (snd (scheduled (test_world ten_rows (first_mile_only full_page))
                [''miles'' \<mapsto> ''old'']))
              = [''miles'' \<mapsto> ''old'']
                  (''miles'' \<mapsto> stringify (test_world ten_rows (first_mile_only full_page)) c))
   \<and> scheduled
         ((http_world ten_rows mostly_errors)
            \<lparr>http := \<lambda>u. map_option (\<lambda>a. a\<lparr>status := 200\<rparr>)
                           (http (http_world ten_rows mostly_errors) u)\<rparr>)
         [''miles'' \<mapsto> ''old'']
       = scheduled (http_world ten_rows mostly_errors) [''miles'' \<mapsto> ''old'']"
proof -
  let ?bad = "scheduled (test_world sample_rows (\<lambda>u. None)) [''miles'' \<mapsto> ''old'']"
  let ?good = "scheduled (test_world ten_rows (first_mile_only full_page)) [''miles'' \<mapsto> ''old'']"
  let ?err = "scheduled (http_world ten_rows mostly_errors) [''miles'' \<mapsto> ''old'']"
  have bad: "?bad = (fst ?bad, fst (snd ?bad), snd (snd ?bad))" by simp
  have good: "?good = (fst ?good, fst (snd ?good), snd (snd ?good))" by simp
  have err: "?err = (fst ?err, fst (snd ?err), snd (snd ?err))" by simp
  have b1: "fst ?bad \<noteq> None" by (simp add: failing_run)
  have g1: "filter is_put (snd (snd ?good)) \<noteq> []" by (simp add: mixed_run)
  note B = put_only_after_all_checks[OF bad]
  note G = put_only_after_all_checks[OF good]
  note E = put_only_after_all_checks[OF err, where g = "\<lambda>u a. 200"]
  have 1: "fst ?bad = Some (FetchFailed ''https://oregonshores.org/mile/mile-7-neahkahnie/'')"
    by (simp add: failing_run)
  have 2: "fst (snd ?bad) = [''miles'' \<mapsto> ''old''] \<and> filter is_put (snd (snd ?bad)) = []"
    using B b1 by blast
  have 3: "fst ?good = None" by (simp add: mixed_run)
  have 4: "length (filter is_put (snd (snd ?good))) = 1"
    using G g1 by (cases "filter is_put (snd (snd ?good))") auto
  have 5: "\<exists>c. sanity_check c = None
          \<and> fst (snd ?good)
              = [''miles'' \<mapsto> ''old'']
                  (''miles'' \<mapsto> stringify (test_world ten_rows (first_mile_only full_page)) c)"
    using G g1 by blast
  have 6: "scheduled
         ((http_world ten_rows mostly_errors)
            \<lparr>http := \<lambda>u. map_option (\<lambda>a. a\<lparr>status := 200\<rparr>)
                           (http (http_world ten_rows mostly_errors) u)\<rparr>)
         [''miles'' \<mapsto> ''old''] = ?err"
    using E err by simp
  from 1 2 3 4 5 6 show ?thesis by blast
qed

text \<open>
  Claim C4 as it was stated fails on an answer with an error status. The table has ten
  miles; the page of mile 21 is served, with an image and a report count; the nine other
  detail requests are answered with status 500 and an error page. Nothing is thrown, the
  ten features are collected (one image, one report count), and the \<^verbatim>\<open>put\<close> replaces the
  value stored before.
\<close>

theorem put_despite_error_status:
  "http (http_world ten_rows mostly_errors) ''https://oregonshores.org/mile/mile-22-mile/''
     = Some \<lparr> status = 500, content = plain_page \<rparr>
   \<and> FetchDetail ''https://oregonshores.org/mile/mile-22-mile/''
       \<in> set (snd (snd (scheduled (http_world ten_rows mostly_errors) [''miles'' \<mapsto> ''old''])))
   \<and> fst (scheduled (http_world ten_rows mostly_errors) [''miles'' \<mapsto> ''old'']) = None
   \<and> filter is_put
         (snd (snd (scheduled (http_world ten_rows mostly_errors) [''miles'' \<mapsto> ''old''])))
       = [KvPut ''miles''
            ''2024-01-01T03:00:00.000Z;mile;mile;mile;mile;mile;mile;mile;mile;mile;mile'']
   \<and> fst (snd (scheduled (http_world ten_rows mostly_errors) [''miles'' \<mapsto> ''old'']))
         ''miles''
       = Some ''2024-01-01T03:00:00.000Z;mile;mile;mile;mile;mile;mile;mile;mile;mile;mile''
   \<and> map imageUrl (features (miles (snd (rows_loop (http_world ten_rows mostly_errors) ten_rows
          (initial_state (http_world ten_rows mostly_errors))))))
       = [Some ''a.jpg'', None, None, None, None, None, None, None, None, None]
   \<and> map numReports (features (miles (snd (rows_loop (http_world ten_rows mostly_errors)
          ten_rows (initial_state (http_world ten_rows mostly_errors))))))
       = [Some 47, None, None, None, None, None, None, None, None, None]"
proof -
  have 1: "http (http_world ten_rows mostly_errors)
             ''https://oregonshores.org/mile/mile-22-mile/''
           = Some \<lparr> status = 500, content = plain_page \<rparr>"
    by (simp add: http_world_def mostly_errors_def sheet_url_def)
  show ?thesis using 1 error_status_loop by (simp add: error_status_run)
qed

text \<open>
  Claim C5 (cap on detail requests, and pass-through). A run requests at most 500 detail
  pages. The loop, started in any state, adds no more requests than the counter leaves
  below 500; when it ends normally the requests are those of the first parsed rows up to
  the cap, in order, every parsed row is in the collection, in order, and the features
  past the cap are exactly as parsed, without image and without report count. The
  collection a successful run saves holds every parsed row of the table.
\<close>

theorem enrichment_cap_and_pass_through:
  "(scheduled w store = (r, store', evs) \<longrightarrow> length (detail_urls evs) \<le> 500)
   \<and> (rows_loop w rows st = (r, st') \<longrightarrow>
        length (detail_urls (trace st'))
          \<le> length (detail_urls (trace st)) + (500 - imagesFetched st))
   \<and> (rows_loop w rows st = (None, st') \<longrightarrow>
        map unenriched (features (miles st'))
          = map unenriched (features (miles st)) @ List.map_filter (parse_row w) rows
        \<and> detail_urls (trace st')
            = detail_urls (trace st)
              @ map url (take (500 - imagesFetched st) (List.map_filter (parse_row w) rows))
        \<and> drop (length (features (miles st)) + (500 - imagesFetched st)) (features (miles st'))
            = drop (500 - imagesFetched st) (List.map_filter (parse_row w) rows)
        \<and> (\<forall>f\<in>set (drop (length (features (miles st)) + (500 - imagesFetched st))
                        (features (miles st'))).
              imageUrl f = None \<and> numReports f = None))
   \<and> (scheduled w store = (None, store', evs) \<longrightarrow>
        (\<exists>body c. fetch w sheet_url = Some body
            \<and> store' ''miles'' = Some (stringify w c)
            \<and> map unenriched (features c) = List.map_filter (parse_row w) (table_rows body)))"
proof -
  have loop_bound: "length (detail_urls (trace b))
          \<le> length (detail_urls (trace a)) + (500 - imagesFetched a)"
    if "rows_loop w rs a = (q, b)" for rs a b q
  proof -
    from rows_loop_trace[OF that] obtain us where
      "trace b = trace a @ map FetchDetail us" "length us \<le> 500 - imagesFetched a" by blast
    then show ?thesis by (simp add: detail_urls_append detail_urls_map)
  qed
  have loop_ok:
    "map unenriched (features (miles b))
          = map unenriched (features (miles a)) @ List.map_filter (parse_row w) rs
     \<and> detail_urls (trace b)
            = detail_urls (trace a)
              @ map url (take (500 - imagesFetched a) (List.map_filter (parse_row w) rs))
     \<and> drop (length (features (miles a)) + (500 - imagesFetched a)) (features (miles b))
            = drop (500 - imagesFetched a) (List.map_filter (parse_row w) rs)"
    if "rows_loop w rs a = (None, b)" for rs a b
  proof -
    let ?P = "List.map_filter (parse_row w) rs" and ?k = "500 - imagesFetched a"
    let ?E = "map (\<lambda>f. enrich (the (fetch w (url f))) f) (take ?k ?P)"
    from rows_loop_ok[OF that] have
      f: "features (miles b) = features (miles a) @ ?E @ drop ?k ?P"
      and t: "trace b = trace a @ map FetchDetail (map url (take ?k ?P))" by auto
    have "map unenriched (?E @ drop ?k ?P) = map unenriched ?P"
      by (rule map_take_drop) (rule unenriched_enrich)
    then have 1: "map unenriched (features (miles b))
                    = map unenriched (features (miles a)) @ ?P"
      using f by (simp add: map_filter_unenriched)
    have 2: "detail_urls (trace b) = detail_urls (trace a) @ map url (take ?k ?P)"
      using t by (simp only: detail_urls_append detail_urls_map)
    have "drop (length (features (miles a)) + ?k) (features (miles b))
            = drop ?k (?E @ drop ?k ?P)"
      unfolding f by (simp add: drop_append)
    also have "\<dots> = drop (?k - length ?E) (drop ?k ?P)"
      by (simp add: min_def)
    also have "\<dots> = drop ?k ?P"
      by (cases "?k \<le> length ?P") simp_all
    finally have 3: "drop (length (features (miles a)) + ?k) (features (miles b)) = drop ?k ?P" .
    from 1 2 3 show ?thesis by blast
  qed
  have A: "scheduled w store = (r, store', evs) \<longrightarrow> length (detail_urls evs) \<le> 500"
  proof
    assume run: "scheduled w store = (r, store', evs)"
    show "length (detail_urls evs) \<le> 500"
    proof (cases "fetch w sheet_url")
      case None
      from run scheduled_no_table[OF None, of store] have "evs = [FetchTable sheet_url]" by simp
      then show ?thesis by simp
    next
      case (Some body)
      obtain r0 s where loop: "rows_loop w (table_rows body) (initial_state w) = (r0, s)"
        by (cases "rows_loop w (table_rows body) (initial_state w)") auto
      from loop_bound[OF loop] have b: "length (detail_urls (trace s)) \<le> 500"
        by (simp add: initial_state_def)
      show ?thesis
      proof (cases r0)
        case (Some e)
        from run scheduled_loop_failed[OF \<open>fetch w sheet_url = Some body\<close> loop[unfolded Some], of store]
        have "evs = trace s" by simp
        then show ?thesis using b by simp
      next
        case None
        note loop' = loop[unfolded None]
        show ?thesis
        proof (cases "sanity_check (miles s)")
          case (Some e)
          from run scheduled_rejected[OF \<open>fetch w sheet_url = Some body\<close> loop' Some, of store]
          have "evs = trace s" by simp
          then show ?thesis using b by simp
        next
          case None
          from run scheduled_saved[OF \<open>fetch w sheet_url = Some body\<close> loop' None, of store]
          have "evs = trace s @ [KvPut ''miles'' (stringify w (miles s))]" by simp
          then show ?thesis using b by (simp add: detail_urls_append)
        qed
      qed
    qed
  qed
  have B: "rows_loop w rows st = (r, st') \<longrightarrow>
        length (detail_urls (trace st'))
          \<le> length (detail_urls (trace st)) + (500 - imagesFetched st)"
    using loop_bound by blast
  have C: "rows_loop w rows st = (None, st') \<longrightarrow>
        map unenriched (features (miles st'))
          = map unenriched (features (miles st)) @ List.map_filter (parse_row w) rows
        \<and> detail_urls (trace st')
            = detail_urls (trace st)
              @ map url (take (500 - imagesFetched st) (List.map_filter (parse_row w) rows))
        \<and> drop (length (features (miles st)) + (500 - imagesFetched st)) (features (miles st'))
            = drop (500 - imagesFetched st) (List.map_filter (parse_row w) rows)
        \<and> (\<forall>f\<in>set (drop (length (features (miles st)) + (500 - imagesFetched st))
                        (features (miles st'))).
              imageUrl f = None \<and> numReports f = None)"
  proof
    assume ok: "rows_loop w rows st = (None, st')"
    note k = loop_ok[OF ok]
    have "\<forall>f\<in>set (drop (length (features (miles st)) + (500 - imagesFetched st))
                        (features (miles st'))).
              imageUrl f = None \<and> numReports f = None"
    proof
      fix f
      assume "f \<in> set (drop (length (features (miles st)) + (500 - imagesFetched st))
                        (features (miles st')))"
      then have "f \<in> set (drop (500 - imagesFetched st) (List.map_filter (parse_row w) rows))"
        using k by simp
      then have "f \<in> set (List.map_filter (parse_row w) rows)" by (rule in_set_dropD)
      then show "imageUrl f = None \<and> numReports f = None" by (rule map_filter_bare)
    qed
    with k show "map unenriched (features (miles st'))
          = map unenriched (features (miles st)) @ List.map_filter (parse_row w) rows
        \<and> detail_urls (trace st')
            = detail_urls (trace st)
              @ map url (take (500 - imagesFetched st) (List.map_filter (parse_row w) rows))
        \<and> drop (length (features (miles st)) + (500 - imagesFetched st)) (features (miles st'))
            = drop (500 - imagesFetched st) (List.map_filter (parse_row w) rows)
        \<and> (\<forall>f\<in>set (drop (length (features (miles st)) + (500 - imagesFetched st))
                        (features (miles st'))).
              imageUrl f = None \<and> numReports f = None)" by blast
  qed
  have D: "scheduled w store = (None, store', evs) \<longrightarrow>
        (\<exists>body c. fetch w sheet_url = Some body
            \<and> store' ''miles'' = Some (stringify w c)
            \<and> map unenriched (features c) = List.map_filter (parse_row w) (table_rows body))"
  proof
    assume run: "scheduled w store = (None, store', evs)"
    show "\<exists>body c. fetch w sheet_url = Some body
            \<and> store' ''miles'' = Some (stringify w c)
            \<and> map unenriched (features c) = List.map_filter (parse_row w) (table_rows body)"
    proof (cases "fetch w sheet_url")
      case None
      from run scheduled_no_table[OF None, of store] show ?thesis by simp
    next
      case (Some body)
      obtain r0 s where loop: "rows_loop w (table_rows body) (initial_state w) = (r0, s)"
        by (cases "rows_loop w (table_rows body) (initial_state w)") auto
      show ?thesis
      proof (cases r0)
        case (Some e)
        from run scheduled_loop_failed[OF \<open>fetch w sheet_url = Some body\<close> loop[unfolded Some], of store]
        show ?thesis by simp
      next
        case None
        note loop' = loop[unfolded None]
        show ?thesis
        proof (cases "sanity_check (miles s)")
          case (Some e)
          from run scheduled_rejected[OF \<open>fetch w sheet_url = Some body\<close> loop' Some, of store]
          show ?thesis by simp
        next
          case None
          from run scheduled_saved[OF \<open>fetch w sheet_url = Some body\<close> loop' None, of store]
          have s: "store' = store(''miles'' \<mapsto> stringify w (miles s))" by simp
          from loop_ok[OF loop'] have
            "map unenriched (features (miles s)) = List.map_filter (parse_row w) (table_rows body)"
            by (simp add: initial_state_def)
          with s \<open>fetch w sheet_url = Some body\<close> show ?thesis by auto
        qed
      qed
    qed
  qed
  from A B C D show ?thesis by blast
qed

theorem enrichment_cap_and_pass_through_witness:
  "fst (rows_loop (test_world sample_rows (\<lambda>u. Some fallback_page)) sample_rows near_cap) = None
   \<and> detail_urls (trace (snd (rows_loop (test_world sample_rows (\<lambda>u. Some fallback_page))
         sample_rows near_cap)))
       = [''https://oregonshores.org/mile/mile-7-neahkahnie/'']
   \<and> map unenriched (features (miles (snd (rows_loop
         (test_world sample_rows (\<lambda>u. Some fallback_page)) sample_rows near_cap))))
       = unenriched sample_feature
         # List.map_filter (parse_row (test_world sample_rows (\<lambda>u. Some fallback_page))) sample_rows
   \<and> list_all (\<lambda>f. imageUrl f = None \<and> numReports f = None)
         (drop 2 (features (miles (snd (rows_loop
           (test_world sample_rows (\<lambda>u. Some fallback_page)) sample_rows near_cap)))))
   \<and> map fid (drop 2 (features (miles (snd (rows_loop
         (test_world sample_rows (\<lambda>u. Some fallback_page)) sample_rows near_cap))))) = [9]
   \<and> length (detail_urls (snd (snd (scheduled (test_world ten_rows (first_mile_only full_page))
         Map.empty)))) \<le> 500
   \<and> (\<exists>body c. fetch (test_world ten_rows (first_mile_only full_page)) sheet_url = Some body
         \<and> fst (snd (scheduled (test_world ten_rows (first_mile_only full_page)) Map.empty))
              ''miles''
             = Some (stringify (test_world ten_rows (first_mile_only full_page)) c)
         \<and> map unenriched (features c)
             = List.map_filter (parse_row (test_world ten_rows (first_mile_only full_page)))
                 (table_rows body))"
proof -
  let ?w = "test_world sample_rows (\<lambda>u. Some fallback_page)"
  let ?v = "test_world ten_rows (first_mile_only full_page)"
  let ?loop = "rows_loop ?w sample_rows near_cap"
  let ?run = "scheduled ?v Map.empty"
  have loop: "?loop = (None, snd ?loop)" by (simp add: near_cap_run)
  have run: "?run = (None, fst (snd ?run), snd (snd ?run))" by (simp add: mixed_run)
  have st: "500 - imagesFetched near_cap = 1" "length (features (miles near_cap)) + 1 = 2"
    "map unenriched (features (miles near_cap)) = [unenriched sample_feature]"
    by (simp_all add: near_cap_def)
  note L = enrichment_cap_and_pass_through[where w = ?w and rows = sample_rows and st = near_cap
             and st' = "snd ?loop" and r = None and store = Map.empty and store' = Map.empty
             and evs = "[]",
             THEN conjunct2, THEN conjunct2, THEN conjunct1, THEN mp, OF loop, unfolded st]
  note R = enrichment_cap_and_pass_through[where w = ?v and store = Map.empty and r = None
             and store' = "fst (snd ?run)" and evs = "snd (snd ?run)"]
  have 1: "fst ?loop = None" by (simp add: near_cap_run)
  have 2: "detail_urls (trace (snd ?loop)) = [''https://oregonshores.org/mile/mile-7-neahkahnie/'']"
    by (simp add: near_cap_run)
  have 3: "map unenriched (features (miles (snd ?loop)))
       = unenriched sample_feature # List.map_filter (parse_row ?w) sample_rows"
    using L by simp
  have 4: "list_all (\<lambda>f. imageUrl f = None \<and> numReports f = None)
             (drop 2 (features (miles (snd ?loop))))"
    using L unfolding list_all_iff by blast
  have 5: "map fid (drop 2 (features (miles (snd ?loop)))) = [9]"
    by (simp add: near_cap_run)
  have 6: "length (detail_urls (snd (snd ?run))) \<le> 500"
    using R run by blast
  have 7: "\<exists>body c. fetch ?v sheet_url = Some body
         \<and> fst (snd ?run) ''miles'' = Some (stringify ?v c)
         \<and> map unenriched (features c) = List.map_filter (parse_row ?v) (table_rows body)"
    using R run by blast
  from 1 2 3 4 5 6 7 show ?thesis by blast
qed

text \<open>
  Claim C6 (row skip rules). A row yields a feature exactly when \<^verbatim>\<open>parseInt\<close> of its
  second cell is not NaN and its third cell does not contain the sentinel phrase. A row
  failing either test leaves the loop state untouched: no feature, no request, no
  exception. A row passing both adds one feature with that identifier and name, unless
  its detail request fails. Over the whole loop, the identifiers and names collected are
  those of the rows passing both tests, in row order.
\<close>

theorem row_skip_rules:
  "((\<exists>f. parse_row w row = Some f) \<longleftrightarrow>
      parseInt (td_text 2 row) \<noteq> None
      \<and> \<not> contains ''never captured on OSCC website'' (td_text 3 row))
   \<and> (parseInt (td_text 2 row) = None
        \<or> contains ''never captured on OSCC website'' (td_text 3 row)
      \<longrightarrow> process_row w row st = (None, st))
   \<and> (parseInt (td_text 2 row) = Some i
        \<and> \<not> contains ''never captured on OSCC website'' (td_text 3 row)
        \<and> process_row w row st = (None, st')
      \<longrightarrow> (\<exists>g. features (miles st') = features (miles st) @ [g]
               \<and> fid g = i \<and> name g = td_text 3 row))
   \<and> (rows_loop w rows st = (None, st') \<longrightarrow>
        map (\<lambda>f. (fid f, name f)) (features (miles st'))
          = map (\<lambda>f. (fid f, name f)) (features (miles st))
            @ List.map_filter
                (\<lambda>row. case parseInt (td_text 2 row) of None \<Rightarrow> None
                       | Some i \<Rightarrow>
                           if contains ''never captured on OSCC website'' (td_text 3 row)
                           then None else Some (i, td_text 3 row)) rows)"
proof -
  have A: "(\<exists>f. parse_row w row = Some f) \<longleftrightarrow>
      parseInt (td_text 2 row) \<noteq> None
      \<and> \<not> contains ''never captured on OSCC website'' (td_text 3 row)"
    by (rule parse_row_Some_iff)
  have B: "parseInt (td_text 2 row) = None
        \<or> contains ''never captured on OSCC website'' (td_text 3 row)
      \<longrightarrow> process_row w row st = (None, st)"
  proof
    assume "parseInt (td_text 2 row) = None
        \<or> contains ''never captured on OSCC website'' (td_text 3 row)"
    with A have "parse_row w row = None" by (cases "parse_row w row") auto
    then show "process_row w row st = (None, st)" by (rule process_row_skip)
  qed
  have C: "parseInt (td_text 2 row) = Some i
        \<and> \<not> contains ''never captured on OSCC website'' (td_text 3 row)
        \<and> process_row w row st = (None, st')
      \<longrightarrow> (\<exists>g. features (miles st') = features (miles st) @ [g]
               \<and> fid g = i \<and> name g = td_text 3 row)"
  proof
    assume h: "parseInt (td_text 2 row) = Some i
        \<and> \<not> contains ''never captured on OSCC website'' (td_text 3 row)
        \<and> process_row w row st = (None, st')"
    with A obtain f where f: "parse_row w row = Some f" by auto
    from parse_row_fields[OF f] h have ff: "fid f = i" "name f = td_text 3 row" by auto
    show "\<exists>g. features (miles st') = features (miles st) @ [g]
               \<and> fid g = i \<and> name g = td_text 3 row"
    proof (cases "imagesFetched st < 500")
      case False
      from h process_row_beyond[OF f False] have
        "features (miles st') = features (miles st) @ [f]" by (auto simp: push_def)
      with ff show ?thesis by blast
    next
      case True
      show ?thesis
      proof (cases "fetch w (url f)")
        case None
        from h process_row_failed[OF f True None] show ?thesis by simp
      next
        case (Some doc)
        from h process_row_fetched[OF f True Some] have
          "features (miles st') = features (miles st) @ [enrich doc f]" by (auto simp: push_def)
        with ff show ?thesis by (auto simp: enrich_other_fields)
      qed
    qed
  qed
  have D: "rows_loop w rows st = (None, st') \<longrightarrow>
        map (\<lambda>f. (fid f, name f)) (features (miles st'))
          = map (\<lambda>f. (fid f, name f)) (features (miles st))
            @ List.map_filter
                (\<lambda>row. case parseInt (td_text 2 row) of None \<Rightarrow> None
                       | Some i \<Rightarrow>
                           if contains ''never captured on OSCC website'' (td_text 3 row)
                           then None else Some (i, td_text 3 row)) rows"
  proof
    assume ok: "rows_loop w rows st = (None, st')"
    let ?P = "List.map_filter (parse_row w) rows" and ?k = "500 - imagesFetched st"
    let ?E = "map (\<lambda>f. enrich (the (fetch w (url f))) f) (take ?k ?P)"
    let ?h = "\<lambda>f. (fid f, name f)"
    from rows_loop_ok[OF ok] have
      f: "features (miles st') = features (miles st) @ ?E @ drop ?k ?P" by auto
    have "map ?h (?E @ drop ?k ?P) = map ?h ?P"
      by (rule map_take_drop) (simp add: enrich_other_fields)
    then have "map ?h (features (miles st')) = map ?h (features (miles st)) @ map ?h ?P"
      unfolding f by simp
    then show "map ?h (features (miles st'))
          = map ?h (features (miles st))
            @ List.map_filter
                (\<lambda>row. case parseInt (td_text 2 row) of None \<Rightarrow> None
                       | Some i \<Rightarrow>
                           if contains ''never captured on OSCC website'' (td_text 3 row)
                           then None else Some (i, td_text 3 row)) rows"
      by (simp only: map_filter_id_name)
  qed
  from A B C D show ?thesis by blast
qed

theorem row_skip_rules_witness:
  "(\<exists>f. parse_row (test_world sample_rows (\<lambda>u. Some fallback_page)) mile7_row = Some f)
   \<and> process_row (test_world sample_rows (\<lambda>u. Some fallback_page)) header_row near_cap
       = (None, near_cap)
   \<and> process_row (test_world sample_rows (\<lambda>u. Some fallback_page)) sentinel_row near_cap
       = (None, near_cap)
   \<and> map (\<lambda>f. (fid f, name f)) (features (miles (snd (rows_loop
         (test_world sample_rows (\<lambda>u. Some fallback_page)) sample_rows near_cap))))
       = [(6, ''six''), (7, ''neahkahnie''), (9, ''nine'')]"
proof -
  let ?w = "test_world sample_rows (\<lambda>u. Some fallback_page)"
  let ?loop = "rows_loop ?w sample_rows near_cap"
  have loop: "?loop = (None, snd ?loop)" by (simp add: near_cap_run)
  have p7: "parseInt (td_text 2 mile7_row) = Some 7"
    and n7: "\<not> contains ''never captured on OSCC website'' (td_text 3 mile7_row)"
    by (simp_all add: td_text_def fixture_defs number_defs)
  have ph: "parseInt (td_text 2 header_row) = None"
    by (simp add: td_text_def fixture_defs number_defs)
  have ns: "contains ''never captured on OSCC website'' (td_text 3 sentinel_row)"
    by (simp add: td_text_def fixture_defs)
  have pp: "List.map_filter
              (\<lambda>row. case parseInt (td_text 2 row) of None \<Rightarrow> None
                     | Some i \<Rightarrow>
                         if contains ''never captured on OSCC website'' (td_text 3 row)
                         then None else Some (i, td_text 3 row)) sample_rows
            = [(7, ''neahkahnie''), (9, ''nine'')]"
    by (simp add: td_text_def fixture_defs number_defs)
  have old: "map (\<lambda>f. (fid f, name f)) (features (miles near_cap)) = [(6, ''six'')]"
    by (simp add: near_cap_def sample_feature_def)
  have 1: "\<exists>f. parse_row ?w mile7_row = Some f"
    using row_skip_rules[where w = ?w and row = mile7_row] p7 n7 by simp
  have 2: "process_row ?w header_row near_cap = (None, near_cap)"
    using row_skip_rules[where w = ?w and row = header_row and st = near_cap] ph by blast
  have 3: "process_row ?w sentinel_row near_cap = (None, near_cap)"
    using row_skip_rules[where w = ?w and row = sentinel_row and st = near_cap] ns by blast
  have 4: "map (\<lambda>f. (fid f, name f)) (features (miles (snd ?loop)))
             = [(6, ''six''), (7, ''neahkahnie''), (9, ''nine'')]"
    using row_skip_rules[where w = ?w and rows = sample_rows and st = near_cap
            and st' = "snd ?loop"] loop
    unfolding pp old by simp
  from 1 2 3 4 show ?thesis by blast
qed

text \<open>
  Claim C7 (coordinates). The coordinates of a feature are the comma-separated pieces of
  the fifth cell, reversed, each given to \<^verbatim>\<open>parseFloat\<close> on its own; for a cell
  ``lat,lon'' that is the pair (lon, lat). Whether a row yields a feature does not
  depend on the fifth cell at all, and a piece that does not start like a number gives
  NaN.
\<close>

theorem coordinates_reversed_unchecked:
  "(parse_row w row = Some f \<longrightarrow>
      coordinates f = map parseFloat (rev (js_split CHR '','' (td_text 5 row))))
   \<and> (parse_row w row = Some f \<and> td_text 5 row = lat @ '','' @ lon
        \<and> CHR '','' \<notin> set lat \<and> CHR '','' \<notin> set lon
      \<longrightarrow> coordinates f = [parseFloat lon, parseFloat lat])
   \<and> ((parse_row w (row[4 := c]) = None) = (parse_row w row = None))
   \<and> ((case dropWhile is_space s of [] \<Rightarrow> True | x # _ \<Rightarrow> x \<notin> set ''+-.0123456789I'')
      \<longrightarrow> parseFloat s = NaN)"
proof -
  have A: "parse_row w row = Some f \<longrightarrow>
      coordinates f = map parseFloat (rev (js_split CHR '','' (td_text 5 row)))"
    using parse_row_fields by blast
  have B: "parse_row w row = Some f \<and> td_text 5 row = lat @ '','' @ lon
        \<and> CHR '','' \<notin> set lat \<and> CHR '','' \<notin> set lon
      \<longrightarrow> coordinates f = [parseFloat lon, parseFloat lat]"
  proof
    assume h: "parse_row w row = Some f \<and> td_text 5 row = lat @ '','' @ lon
        \<and> CHR '','' \<notin> set lat \<and> CHR '','' \<notin> set lon"
    then have "js_split CHR '','' (td_text 5 row) = [lat, lon]"
      using js_split_at_sep[of "CHR '',''" lat lon] js_split_no_sep[of "CHR '',''" lon] by simp
    with A h show "coordinates f = [parseFloat lon, parseFloat lat]" by simp
  qed
  have t2: "td_text 2 (row[4 := c]) = td_text 2 row"
    by (auto simp: td_text_def nth_list_update)
  have t3: "td_text 3 (row[4 := c]) = td_text 3 row"
    by (auto simp: td_text_def nth_list_update)
  have C: "(parse_row w (row[4 := c]) = None) = (parse_row w row = None)"
    using parse_row_Some_iff[of w row] parse_row_Some_iff[of w "row[4 := c]"]
    unfolding t2 t3 by (metis not_Some_eq)
  have D: "(case dropWhile is_space s of [] \<Rightarrow> True | x # _ \<Rightarrow> x \<notin> set ''+-.0123456789I'')
      \<longrightarrow> parseFloat s = NaN"
  proof
    assume h: "case dropWhile is_space s of [] \<Rightarrow> True | x # _ \<Rightarrow> x \<notin> set ''+-.0123456789I''"
    show "parseFloat s = NaN"
    proof (cases "dropWhile is_space s")
      case Nil
      show ?thesis unfolding parseFloat_def Nil Let_def by simp
    next
      case (Cons x r)
      with h have x: "x \<notin> set ''+-.0123456789I''" by simp
      then have d: "\<not> is_digit x" by (simp add: is_digit_def)
      show ?thesis unfolding parseFloat_def Cons Let_def using x d by auto
    qed
  qed
  from A B C D show ?thesis by blast
qed

theorem coordinates_reversed_unchecked_witness:
  "(\<exists>f. parse_row (test_world sample_rows (\<lambda>u. None)) mile7_row = Some f
        \<and> coordinates f = [Finite (- 124), Finite (441 / 10)])
   \<and> (\<exists>f. parse_row (test_world sample_rows (\<lambda>u. None)) mile9_row = Some f
        \<and> coordinates f = [NaN, NaN])
   \<and> (parse_row (test_world sample_rows (\<lambda>u. None)) (mile7_row[4 := Td ''nowhere'']) = None)
       = (parse_row (test_world sample_rows (\<lambda>u. None)) mile7_row = None)
   \<and> parseFloat ''south'' = NaN"
proof -
  let ?w = "test_world sample_rows (\<lambda>u. None)"
  have "parseInt (td_text 2 mile7_row) \<noteq> None
        \<and> \<not> contains ''never captured on OSCC website'' (td_text 3 mile7_row)"
    by (simp add: td_text_def fixture_defs number_defs)
  then obtain f7 where f7: "parse_row ?w mile7_row = Some f7"
    using parse_row_Some_iff[of ?w mile7_row] by blast
  have "parseInt (td_text 2 mile9_row) \<noteq> None
        \<and> \<not> contains ''never captured on OSCC website'' (td_text 3 mile9_row)"
    by (simp add: td_text_def fixture_defs number_defs)
  then obtain f9 where f9: "parse_row ?w mile9_row = Some f9"
    using parse_row_Some_iff[of ?w mile9_row] by blast
  have c7: "td_text 5 mile7_row = ''44.1'' @ '','' @ ''-124.0''
            \<and> CHR '','' \<notin> set ''44.1'' \<and> CHR '','' \<notin> set ''-124.0''"
    by (simp add: td_text_def fixture_defs)
  have c9: "rev (js_split CHR '','' (td_text 5 mile9_row)) = [''south'', ''north'']"
    by (simp add: td_text_def fixture_defs)
  have sp: "case dropWhile is_space ''south'' of [] \<Rightarrow> True
            | x # _ \<Rightarrow> x \<notin> set ''+-.0123456789I''"
    and np: "case dropWhile is_space ''north'' of [] \<Rightarrow> True
            | x # _ \<Rightarrow> x \<notin> set ''+-.0123456789I''"
    by (simp_all add: is_space_def)
  note T7 = coordinates_reversed_unchecked[where w = ?w and row = mile7_row and f = f7
              and lat = "''44.1''" and lon = "''-124.0''" and c = "Td ''nowhere''"
              and s = "''south''"]
  note T9 = coordinates_reversed_unchecked[where w = ?w and row = mile9_row and f = f9
              and lat = "[]" and lon = "[]" and c = "Td ''nowhere''" and s = "''north''"]
  have v: "parseFloat ''-124.0'' = Finite (- 124)" "parseFloat ''44.1'' = Finite (441 / 10)"
    by (simp_all add: number_defs)
  have s: "parseFloat ''south'' = NaN" using T7 sp by blast
  have n: "parseFloat ''north'' = NaN" using T9 np by blast
  have "coordinates f7 = [parseFloat ''-124.0'', parseFloat ''44.1'']"
    using T7 f7 c7 by blast
  then have 1: "\<exists>f. parse_row ?w mile7_row = Some f
                  \<and> coordinates f = [Finite (- 124), Finite (441 / 10)]"
    using f7 v by simp
  have "coordinates f9 = map parseFloat (rev (js_split CHR '','' (td_text 5 mile9_row)))"
    using T9 f9 by blast
  then have 2: "\<exists>f. parse_row ?w mile9_row = Some f \<and> coordinates f = [NaN, NaN]"
    using f9 s n unfolding c9 by simp
  have 3: "(parse_row ?w (mile7_row[4 := Td ''nowhere'']) = None)
             = (parse_row ?w mile7_row = None)"
    using T7 by blast
  from 1 2 3 s show ?thesis by blast
qed

text \<open>
  Claim C8 (image fallback chain). The image of an enriched feature is the \<^verbatim>\<open>src\<close> of
  the first \<^verbatim>\<open>img.mile-image\<close> when that is a non-empty string; otherwise the \<^verbatim>\<open>src\<close>
  of the first \<^verbatim>\<open>img.mile-report-result-image\<close> whose \<^verbatim>\<open>alt\<close> does not contain
  ``decorative'', when that is a non-empty string; otherwise the feature keeps what it
  had, which for a parsed row is no image.
\<close>

theorem image_fallback_chain:
  "imageUrl (enrich doc f) =
     (case find is_mile_image (imgs doc) of
        None \<Rightarrow>
          (case find is_report_image (imgs doc) of
             None \<Rightarrow> imageUrl f
           | Some e \<Rightarrow> if truthy_str (src e) then src e else imageUrl f)
      | Some p \<Rightarrow>
          if truthy_str (src p) then src p
          else
            (case find is_report_image (imgs doc) of
               None \<Rightarrow> imageUrl f
             | Some e \<Rightarrow> if truthy_str (src e) then src e else imageUrl f))"
  unfolding enrich_imageUrl by (rule image_of_find)

theorem image_fallback_chain_witness:
  "imageUrl (enrich fallback_page sample_feature) = Some ''report.jpg''
   \<and> imageUrl (enrich full_page sample_feature) = Some ''a.jpg''
   \<and> imageUrl (enrich plain_page sample_feature) = None
   \<and> imageUrl (enrich \<lparr> table_rows = [], imgs = [decorative_img], results_meta = [] \<rparr>
                 sample_feature) = None"
  using image_fallback_chain[of fallback_page sample_feature]
        image_fallback_chain[of full_page sample_feature]
        image_fallback_chain[of plain_page sample_feature]
        image_fallback_chain[of "\<lparr> table_rows = [], imgs = [decorative_img], results_meta = [] \<rparr>"
          sample_feature]
  by (simp add: fixture_defs is_mile_image_def is_report_image_def truthy_str_def)

text \<open>
  Claim C9 (report count). The results text is searched for ``Showing x of n reports'',
  x and n being non-empty runs of digits, anywhere in the text. At the occurrence that
  starts first, the report count becomes \<^verbatim>\<open>parseInt\<close> of n, which is never NaN, and that
  is the number n itself as long as n does not exceed \<open>2 ^ 53\<close>. Whenever the text has
  an occurrence it has a first one, and that one decides. When the text has no
  occurrence, the feature keeps what it had, which for a parsed row is no count.
\<close>

theorem report_count_extraction:
  "(results_meta doc = pre @ ''Showing '' @ x @ '' of '' @ n @ '' reports'' @ post
      \<and> x \<noteq> [] \<and> (\<forall>c\<in>set x. is_digit c) \<and> n \<noteq> [] \<and> (\<forall>c\<in>set n. is_digit c)
      \<and> (\<forall>pre' y m post'.
            y \<noteq> [] \<and> (\<forall>c\<in>set y. is_digit c) \<and> m \<noteq> [] \<and> (\<forall>c\<in>set m. is_digit c)
            \<and> results_meta doc = pre' @ ''Showing '' @ y @ '' of '' @ m @ '' reports'' @ post'
          \<longrightarrow> length pre \<le> length pre')
    \<longrightarrow> numReports (enrich doc f) = parseInt n \<and> parseInt n \<noteq> None
        \<and> (radix_value 10 n \<le> 2 ^ 53
             \<longrightarrow> numReports (enrich doc f) = Some (int (radix_value 10 n))))
   \<and> ((\<exists>pre' y m post'.
          y \<noteq> [] \<and> (\<forall>c\<in>set y. is_digit c) \<and> m \<noteq> [] \<and> (\<forall>c\<in>set m. is_digit c)
          \<and> results_meta doc = pre' @ ''Showing '' @ y @ '' of '' @ m @ '' reports'' @ post')
    \<longrightarrow> (\<exists>pre0 x0 n0 post0.
          x0 \<noteq> [] \<and> (\<forall>c\<in>set x0. is_digit c) \<and> n0 \<noteq> [] \<and> (\<forall>c\<in>set n0. is_digit c)
          \<and> results_meta doc = pre0 @ ''Showing '' @ x0 @ '' of '' @ n0 @ '' reports'' @ post0
          \<and> (\<forall>pre' y m post'.
                y \<noteq> [] \<and> (\<forall>c\<in>set y. is_digit c) \<and> m \<noteq> [] \<and> (\<forall>c\<in>set m. is_digit c)
                \<and> results_meta doc = pre' @ ''Showing '' @ y @ '' of '' @ m @ '' reports'' @ post'
              \<longrightarrow> length pre0 \<le> length pre')
          \<and> numReports (enrich doc f) = parseInt n0 \<and> parseInt n0 \<noteq> None))
   \<and> ((\<forall>pre' y m post'.
          y \<noteq> [] \<and> (\<forall>c\<in>set y. is_digit c) \<and> m \<noteq> [] \<and> (\<forall>c\<in>set m. is_digit c)
          \<longrightarrow> results_meta doc \<noteq> pre' @ ''Showing '' @ y @ '' of '' @ m @ '' reports'' @ post')
    \<longrightarrow> numReports (enrich doc f) = numReports f)"
proof -
  let ?t = "results_meta doc"
  have A: "?t = pre @ ''Showing '' @ x @ '' of '' @ n @ '' reports'' @ post
      \<and> x \<noteq> [] \<and> (\<forall>c\<in>set x. is_digit c) \<and> n \<noteq> [] \<and> (\<forall>c\<in>set n. is_digit c)
      \<and> (\<forall>pre' y m post'.
            y \<noteq> [] \<and> (\<forall>c\<in>set y. is_digit c) \<and> m \<noteq> [] \<and> (\<forall>c\<in>set m. is_digit c)
            \<and> ?t = pre' @ ''Showing '' @ y @ '' of '' @ m @ '' reports'' @ post'
          \<longrightarrow> length pre \<le> length pre')
    \<longrightarrow> numReports (enrich doc f) = parseInt n \<and> parseInt n \<noteq> None
        \<and> (radix_value 10 n \<le> 2 ^ 53
             \<longrightarrow> numReports (enrich doc f) = Some (int (radix_value 10 n)))"
  proof
    assume h: "?t = pre @ ''Showing '' @ x @ '' of '' @ n @ '' reports'' @ post
      \<and> x \<noteq> [] \<and> (\<forall>c\<in>set x. is_digit c) \<and> n \<noteq> [] \<and> (\<forall>c\<in>set n. is_digit c)
      \<and> (\<forall>pre' y m post'.
            y \<noteq> [] \<and> (\<forall>c\<in>set y. is_digit c) \<and> m \<noteq> [] \<and> (\<forall>c\<in>set m. is_digit c)
            \<and> ?t = pre' @ ''Showing '' @ y @ '' of '' @ m @ '' reports'' @ post'
          \<longrightarrow> length pre \<le> length pre')"
    let ?r = "''Showing '' @ x @ '' of '' @ n @ '' reports'' @ post"
    have t: "?t = pre @ ?r" using h by simp
    have m: "match_reports_at ?r = Some n"
      using h match_reports_at_shape[of x n post] by simp
    have "exec_reports (pre @ ?r) = Some n"
    proof (rule exec_reports_leftmost[OF m])
      fix pre' r'
      assume e: "pre @ ?r = pre' @ r'" and l: "length pre' < length pre"
      show "match_reports_at r' = None"
      proof (cases "match_reports_at r'")
        case None then show ?thesis .
      next
        case (Some k)
        from match_reports_at_Some[OF Some] obtain y q where
          "k \<noteq> []" "\<forall>c\<in>set k. is_digit c"
          "r' = ''Showing '' @ y @ '' of '' @ k @ '' reports'' @ q"
          "y \<noteq> []" "\<forall>c\<in>set y. is_digit c" by blast
        moreover from this e t have
          "?t = pre' @ ''Showing '' @ y @ '' of '' @ k @ '' reports'' @ q" by simp
        ultimately have "length pre \<le> length pre'" using h by blast
        with l show ?thesis by simp
      qed
    qed
    then have x: "exec_reports ?t = Some n" using t by simp
    have p: "parseInt n = Some (int (radix_value 10 n))"
      using h parseInt_digits[of n] by blast
    from x p show "numReports (enrich doc f) = parseInt n \<and> parseInt n \<noteq> None
        \<and> (radix_value 10 n \<le> 2 ^ 53
             \<longrightarrow> numReports (enrich doc f) = Some (int (radix_value 10 n)))"
      by (simp add: enrich_numReports)
  qed
  have B: "(\<exists>pre' y m post'.
          y \<noteq> [] \<and> (\<forall>c\<in>set y. is_digit c) \<and> m \<noteq> [] \<and> (\<forall>c\<in>set m. is_digit c)
          \<and> ?t = pre' @ ''Showing '' @ y @ '' of '' @ m @ '' reports'' @ post')
    \<longrightarrow> (\<exists>pre0 x0 n0 post0.
          x0 \<noteq> [] \<and> (\<forall>c\<in>set x0. is_digit c) \<and> n0 \<noteq> [] \<and> (\<forall>c\<in>set n0. is_digit c)
          \<and> ?t = pre0 @ ''Showing '' @ x0 @ '' of '' @ n0 @ '' reports'' @ post0
          \<and> (\<forall>pre' y m post'.
                y \<noteq> [] \<and> (\<forall>c\<in>set y. is_digit c) \<and> m \<noteq> [] \<and> (\<forall>c\<in>set m. is_digit c)
                \<and> ?t = pre' @ ''Showing '' @ y @ '' of '' @ m @ '' reports'' @ post'
              \<longrightarrow> length pre0 \<le> length pre')
          \<and> numReports (enrich doc f) = parseInt n0 \<and> parseInt n0 \<noteq> None)"
  proof
    assume "\<exists>pre' y m post'.
          y \<noteq> [] \<and> (\<forall>c\<in>set y. is_digit c) \<and> m \<noteq> [] \<and> (\<forall>c\<in>set m. is_digit c)
          \<and> ?t = pre' @ ''Showing '' @ y @ '' of '' @ m @ '' reports'' @ post'"
    then obtain pre1 y1 m1 post1 where
      "y1 \<noteq> []" "\<forall>c\<in>set y1. is_digit c" "m1 \<noteq> []" "\<forall>c\<in>set m1. is_digit c"
      "?t = pre1 @ ''Showing '' @ y1 @ '' of '' @ m1 @ '' reports'' @ post1" by blast
    then have "exec_reports ?t \<noteq> None" using exec_reports_found[of y1 m1 pre1 post1] by simp
    then obtain d where d: "exec_reports ?t = Some d" by blast
    from exec_reports_Some_leftmost[OF d] obtain pre0 r0 where
      r0: "?t = pre0 @ r0" "match_reports_at r0 = Some d"
          "\<forall>pre' r'. ?t = pre' @ r' \<and> length pre' < length pre0
             \<longrightarrow> match_reports_at r' = None" by blast
    from match_reports_at_Some[OF r0(2)] obtain x0 post0 where
      x0: "d \<noteq> []" "\<forall>c\<in>set d. is_digit c"
          "r0 = ''Showing '' @ x0 @ '' of '' @ d @ '' reports'' @ post0"
          "x0 \<noteq> []" "\<forall>c\<in>set x0. is_digit c" by blast
    have occ: "?t = pre0 @ ''Showing '' @ x0 @ '' of '' @ d @ '' reports'' @ post0"
      using r0(1) x0(3) by simp
    have left: "\<forall>pre' y m post'.
                y \<noteq> [] \<and> (\<forall>c\<in>set y. is_digit c) \<and> m \<noteq> [] \<and> (\<forall>c\<in>set m. is_digit c)
                \<and> ?t = pre' @ ''Showing '' @ y @ '' of '' @ m @ '' reports'' @ post'
              \<longrightarrow> length pre0 \<le> length pre'"
    proof (intro allI impI)
      fix pre' y m post'
      assume o: "y \<noteq> [] \<and> (\<forall>c\<in>set y. is_digit c) \<and> m \<noteq> [] \<and> (\<forall>c\<in>set m. is_digit c)
                \<and> ?t = pre' @ ''Showing '' @ y @ '' of '' @ m @ '' reports'' @ post'"
      show "length pre0 \<le> length pre'"
      proof (rule ccontr)
        assume "\<not> length pre0 \<le> length pre'"
        then have "length pre' < length pre0" by simp
        with r0(3) o have
          "match_reports_at (''Showing '' @ y @ '' of '' @ m @ '' reports'' @ post') = None"
          by blast
        moreover have
          "match_reports_at (''Showing '' @ y @ '' of '' @ m @ '' reports'' @ post') = Some m"
          using o match_reports_at_shape[of y m post'] by blast
        ultimately show False by simp
      qed
    qed
    have p: "parseInt d = Some (int (radix_value 10 d))"
      using x0(1,2) by (rule parseInt_digits)
    have v: "numReports (enrich doc f) = parseInt d \<and> parseInt d \<noteq> None"
      using d p by (simp add: enrich_numReports)
    from x0(1,2,4,5) occ left v show "\<exists>pre0 x0 n0 post0.
          x0 \<noteq> [] \<and> (\<forall>c\<in>set x0. is_digit c) \<and> n0 \<noteq> [] \<and> (\<forall>c\<in>set n0. is_digit c)
          \<and> ?t = pre0 @ ''Showing '' @ x0 @ '' of '' @ n0 @ '' reports'' @ post0
          \<and> (\<forall>pre' y m post'.
                y \<noteq> [] \<and> (\<forall>c\<in>set y. is_digit c) \<and> m \<noteq> [] \<and> (\<forall>c\<in>set m. is_digit c)
                \<and> ?t = pre' @ ''Showing '' @ y @ '' of '' @ m @ '' reports'' @ post'
              \<longrightarrow> length pre0 \<le> length pre')
          \<and> numReports (enrich doc f) = parseInt n0 \<and> parseInt n0 \<noteq> None"
      by blast
  qed
  have C: "(\<forall>pre' y m post'.
          y \<noteq> [] \<and> (\<forall>c\<in>set y. is_digit c) \<and> m \<noteq> [] \<and> (\<forall>c\<in>set m. is_digit c)
          \<longrightarrow> ?t \<noteq> pre' @ ''Showing '' @ y @ '' of '' @ m @ '' reports'' @ post')
    \<longrightarrow> numReports (enrich doc f) = numReports f"
  proof
    assume h: "\<forall>pre' y m post'.
          y \<noteq> [] \<and> (\<forall>c\<in>set y. is_digit c) \<and> m \<noteq> [] \<and> (\<forall>c\<in>set m. is_digit c)
          \<longrightarrow> ?t \<noteq> pre' @ ''Showing '' @ y @ '' of '' @ m @ '' reports'' @ post'"
    have "exec_reports ?t = None"
    proof (cases "exec_reports ?t")
      case None then show ?thesis .
    next
      case (Some d)
      from exec_reports_Some[OF Some] h show ?thesis by blast
    qed
    then show "numReports (enrich doc f) = numReports f" by (simp add: enrich_numReports)
  qed
  from A B C show ?thesis by blast
qed

theorem report_count_extraction_witness:
  "numReports (enrich full_page sample_feature) = Some 47
   \<and> numReports (enrich fallback_page sample_feature) = Some 120
   \<and> numReports (enrich two_counts_page sample_feature) = Some 47
   \<and> numReports (enrich plain_page sample_feature) = None
   \<and> numReports (enrich (plain_page\<lparr>results_meta := ''47 Reports''\<rparr>) sample_feature) = None"
proof -
  have d: "\<forall>c\<in>set ''3''. is_digit c" "\<forall>c\<in>set ''47''. is_digit c"
          "\<forall>c\<in>set ''10''. is_digit c" "\<forall>c\<in>set ''120''. is_digit c"
    by (simp_all add: is_digit_def)
  have v: "radix_value 10 ''47'' = 47" "radix_value 10 ''120'' = 120"
    by (simp_all add: radix_value_def digit_value_def is_digit_def)
  have m: "results_meta full_page
             = [] @ ''Showing '' @ ''3'' @ '' of '' @ ''47'' @ '' reports'' @ []"
          "results_meta fallback_page
             = [] @ ''Showing '' @ ''10'' @ '' of '' @ ''120'' @ '' reports'' @ []"
          "results_meta two_counts_page
             = '' '' @ ''Showing '' @ ''3'' @ '' of '' @ ''47'' @ '' reports''
                 @ '' Showing 1 of 9 reports''"
    by (simp_all add: full_page_def fallback_page_def two_counts_page_def)
  have first: "\<forall>pre' y m post'.
      y \<noteq> [] \<and> (\<forall>c\<in>set y. is_digit c) \<and> m \<noteq> [] \<and> (\<forall>c\<in>set m. is_digit c)
      \<and> results_meta two_counts_page = pre' @ ''Showing '' @ y @ '' of '' @ m @ '' reports'' @ post'
      \<longrightarrow> length '' '' \<le> length pre'"
  proof (intro allI impI)
    fix pre' :: string and y m post' :: string
    assume h: "y \<noteq> [] \<and> (\<forall>c\<in>set y. is_digit c) \<and> m \<noteq> [] \<and> (\<forall>c\<in>set m. is_digit c)
      \<and> results_meta two_counts_page = pre' @ ''Showing '' @ y @ '' of '' @ m @ '' reports'' @ post'"
    show "length '' '' \<le> length pre'"
    proof (cases pre')
      case Nil
      with h show ?thesis by (simp add: two_counts_page_def)
    next
      case (Cons a as)
      then show ?thesis by simp
    qed
  qed
  have none: "\<forall>pre' y m post'.
      y \<noteq> [] \<and> (\<forall>c\<in>set y. is_digit c) \<and> m \<noteq> [] \<and> (\<forall>c\<in>set m. is_digit c)
      \<longrightarrow> results_meta plain_page \<noteq> pre' @ ''Showing '' @ y @ '' of '' @ m @ '' reports'' @ post'"
    by (simp add: plain_page_def)
  have old_markup: "\<forall>pre' y m post'.
      y \<noteq> [] \<and> (\<forall>c\<in>set y. is_digit c) \<and> m \<noteq> [] \<and> (\<forall>c\<in>set m. is_digit c)
      \<longrightarrow> results_meta (plain_page\<lparr>results_meta := ''47 Reports''\<rparr>)
            \<noteq> pre' @ ''Showing '' @ y @ '' of '' @ m @ '' reports'' @ post'"
  proof (intro allI impI notI)
    fix pre' y m post' :: string
    assume "results_meta (plain_page\<lparr>results_meta := ''47 Reports''\<rparr>)
              = pre' @ ''Showing '' @ y @ '' of '' @ m @ '' reports'' @ post'"
    then have "set ''47 Reports''
                 = set (pre' @ ''Showing '' @ y @ '' of '' @ m @ '' reports'' @ post')"
      by simp
    moreover have "CHR ''S'' \<in> set (pre' @ ''Showing '' @ y @ '' of '' @ m @ '' reports'' @ post')"
      by simp
    moreover have "CHR ''S'' \<notin> set ''47 Reports''" by simp
    ultimately show False by blast
  qed
  have old: "numReports sample_feature = None" by (simp add: sample_feature_def)
  have ne: "''3'' \<noteq> []" "''47'' \<noteq> []" "''10'' \<noteq> []" "''120'' \<noteq> []" by simp_all
  have start: "\<forall>pre' y m post'.
      y \<noteq> [] \<and> (\<forall>c\<in>set y. is_digit c) \<and> m \<noteq> [] \<and> (\<forall>c\<in>set m. is_digit c)
      \<and> results_meta dc = pre' @ ''Showing '' @ y @ '' of '' @ m @ '' reports'' @ post'
      \<longrightarrow> length ([] :: string) \<le> length pre'" for dc
    by simp
  have small: "radix_value 10 ''47'' \<le> 2 ^ 53" "radix_value 10 ''120'' \<le> 2 ^ 53"
    by (simp_all add: v)
  have "numReports (enrich full_page sample_feature) = Some (int (radix_value 10 ''47''))"
    using report_count_extraction[where doc = full_page and pre = "[]" and x = "''3''"
            and n = "''47''" and post = "[]" and f = sample_feature, THEN conjunct1]
          m(1) d(1,2) ne(1,2) start[of full_page] small(1)
    by blast
  then have 1: "numReports (enrich full_page sample_feature) = Some 47"
    by (simp add: v)
  have "numReports (enrich fallback_page sample_feature) = Some (int (radix_value 10 ''120''))"
    using report_count_extraction[where doc = fallback_page and pre = "[]" and x = "''10''"
            and n = "''120''" and post = "[]" and f = sample_feature, THEN conjunct1]
          m(2) d(3,4) ne(3,4) start[of fallback_page] small(2)
    by blast
  then have 2: "numReports (enrich fallback_page sample_feature) = Some 120"
    by (simp add: v)
  have "numReports (enrich two_counts_page sample_feature) = Some (int (radix_value 10 ''47''))"
    using report_count_extraction[where doc = two_counts_page and pre = "'' ''" and x = "''3''"
            and n = "''47''" and post = "'' Showing 1 of 9 reports''" and f = sample_feature,
            THEN conjunct1]
          m(3) d(1,2) ne(1,2) first small(1)
    by blast
  then have 3: "numReports (enrich two_counts_page sample_feature) = Some 47"
    by (simp add: v)
  have 4: "numReports (enrich plain_page sample_feature) = None"
    using report_count_extraction[where doc = plain_page and pre = "[]" and x = "[]"
            and n = "[]" and post = "[]" and f = sample_feature, THEN conjunct2, THEN conjunct2]
          none old
    by metis
  have 5: "numReports (enrich (plain_page\<lparr>results_meta := ''47 Reports''\<rparr>) sample_feature)
             = None"
    using report_count_extraction[where doc = "plain_page\<lparr>results_meta := ''47 Reports''\<rparr>"
            and pre = "[]" and x = "[]" and n = "[]" and post = "[]" and f = sample_feature,
            THEN conjunct2, THEN conjunct2]
          old_markup old
    by metis
  from 1 2 3 4 5 show ?thesis by blast
qed

text \<open>
  Claim C10 (an empty \<^verbatim>\<open>src\<close> counts as absent). Replacing an empty \<^verbatim>\<open>src\<close> attribute
  of any image of the page by a missing one changes nothing in the enriched feature;
  enrichment never stores an empty image URL; and so no feature collected by the loop
  has an empty image URL. When the first \<^verbatim>\<open>img.mile-image\<close> has an empty or a missing
  \<^verbatim>\<open>src\<close>, the image is the one the report images give: the non-empty \<^verbatim>\<open>src\<close> of the
  first report image that is not decorative, or else what the feature had.
\<close>

theorem empty_src_is_absent:
  "enrich (doc\<lparr>imgs := pre @ e\<lparr>src := Some []\<rparr> # post\<rparr>) f
     = enrich (doc\<lparr>imgs := pre @ e\<lparr>src := None\<rparr> # post\<rparr>) f
   \<and> (imageUrl f \<noteq> Some [] \<longrightarrow> imageUrl (enrich doc f) \<noteq> Some [])
   \<and> (rows_loop w rows st = (r, st') \<and> (\<forall>g\<in>set (features (miles st)). imageUrl g \<noteq> Some [])
      \<longrightarrow> (\<forall>g\<in>set (features (miles st')). imageUrl g \<noteq> Some []))
   \<and> (find is_mile_image (imgs doc) = Some p \<and> (src p = Some [] \<or> src p = None)
      \<longrightarrow> imageUrl (enrich doc f) =
            (case find is_report_image (imgs doc) of
               None \<Rightarrow> imageUrl f
             | Some q \<Rightarrow> (case src q of
                            None \<Rightarrow> imageUrl f
                          | Some u \<Rightarrow> if u = [] then imageUrl f else Some u)))"
proof -
  have A: "enrich (doc\<lparr>imgs := pre @ e\<lparr>src := Some []\<rparr> # post\<rparr>) f
     = enrich (doc\<lparr>imgs := pre @ e\<lparr>src := None\<rparr> # post\<rparr>) f"
    by (rule enrich_blank)
  have B: "imageUrl g \<noteq> Some [] \<longrightarrow> imageUrl (enrich dc g) \<noteq> Some []" for dc g
    unfolding enrich_imageUrl using image_of_nonempty by blast
  have step: "\<forall>g\<in>set (features (miles b)). imageUrl g \<noteq> Some []"
    if "process_row w rw a = (q, b)" "\<forall>g\<in>set (features (miles a)). imageUrl g \<noteq> Some []"
    for rw a b q
  proof (cases "parse_row w rw")
    case None
    with that process_row_skip[OF None, of a] show ?thesis by simp
  next
    case (Some p)
    from parse_row_fields[OF Some] have p: "imageUrl p \<noteq> Some []" by simp
    show ?thesis
    proof (cases "imagesFetched a < 500")
      case False
      from that process_row_beyond[OF Some False] p show ?thesis by (auto simp: push_def)
    next
      case True
      show ?thesis
      proof (cases "fetch w (url p)")
        case None
        from that process_row_failed[OF Some True None] show ?thesis by auto
      next
        case (Some dc)
        from that process_row_fetched[OF \<open>parse_row w rw = Some p\<close> True Some] B[of p dc] p
        show ?thesis by (auto simp: push_def)
      qed
    qed
  qed
  have loop: "rows_loop w rs a = (q, b) \<Longrightarrow> \<forall>g\<in>set (features (miles a)). imageUrl g \<noteq> Some []
      \<Longrightarrow> \<forall>g\<in>set (features (miles b)). imageUrl g \<noteq> Some []" for rs a b q
  proof (induction rs arbitrary: a)
    case Nil
    then show ?case by simp
  next
    case (Cons rw rs)
    obtain q1 a1 where s: "process_row w rw a = (q1, a1)" by (cases "process_row w rw a") auto
    from step[OF s Cons.prems(2)] have inv: "\<forall>g\<in>set (features (miles a1)). imageUrl g \<noteq> Some []" .
    show ?case
    proof (cases q1)
      case None
      with Cons.prems(1) s have "rows_loop w rs a1 = (q, b)" by simp
      from Cons.IH[OF this inv] show ?thesis .
    next
      case (Some err)
      with Cons.prems(1) s have "b = a1" by simp
      with inv show ?thesis by simp
    qed
  qed
  have C: "rows_loop w rows st = (r, st') \<and> (\<forall>g\<in>set (features (miles st)). imageUrl g \<noteq> Some [])
      \<longrightarrow> (\<forall>g\<in>set (features (miles st')). imageUrl g \<noteq> Some [])"
    using loop by blast
  have D: "find is_mile_image (imgs doc) = Some p \<and> (src p = Some [] \<or> src p = None)
      \<longrightarrow> imageUrl (enrich doc f) =
            (case find is_report_image (imgs doc) of
               None \<Rightarrow> imageUrl f
             | Some q \<Rightarrow> (case src q of
                            None \<Rightarrow> imageUrl f
                          | Some u \<Rightarrow> if u = [] then imageUrl f else Some u))"
    unfolding enrich_imageUrl image_of_find
    by (auto simp: truthy_str_def split: option.splits)
  from A B[of f doc] C D show ?thesis by blast
qed

theorem empty_src_is_absent_witness:
  "enrich (plain_page\<lparr>imgs := [decorative_img] @ mile_img\<lparr>src := Some []\<rparr> # [report_img]\<rparr>)
       sample_feature
     = enrich (plain_page\<lparr>imgs := [decorative_img] @ mile_img\<lparr>src := None\<rparr> # [report_img]\<rparr>)
         sample_feature
   \<and> imageUrl (enrich fallback_page sample_feature) \<noteq> Some []
   \<and> list_all (\<lambda>g. imageUrl g \<noteq> Some [])
        (features (miles (snd (rows_loop (test_world sample_rows (\<lambda>u. Some fallback_page))
           sample_rows near_cap))))
   \<and> map imageUrl (features (miles (snd (rows_loop
         (test_world sample_rows (\<lambda>u. Some fallback_page)) sample_rows near_cap))))
       = [None, Some ''report.jpg'', None]
   \<and> imageUrl (enrich fallback_page sample_feature) = Some ''report.jpg''"
proof -
  let ?w = "test_world sample_rows (\<lambda>u. Some fallback_page)"
  let ?loop = "rows_loop ?w sample_rows near_cap"
  have loop: "?loop = (fst ?loop, snd ?loop)" by simp
  have old: "imageUrl sample_feature \<noteq> Some []" by (simp add: sample_feature_def)
  have inv: "\<forall>g\<in>set (features (miles near_cap)). imageUrl g \<noteq> Some []"
    by (simp add: near_cap_def sample_feature_def)
  have primary: "find is_mile_image (imgs fallback_page) = Some (mile_img\<lparr>src := Some []\<rparr>)
                 \<and> (src (mile_img\<lparr>src := Some []\<rparr>) = Some []
                      \<or> src (mile_img\<lparr>src := Some []\<rparr>) = None)"
    by (simp add: fallback_page_def mile_img_def is_mile_image_def)
  have report: "find is_report_image (imgs fallback_page) = Some report_img"
               "src report_img = Some ''report.jpg''"
    by (simp_all add: fallback_page_def mile_img_def decorative_img_def report_img_def
          is_report_image_def)
  note T = empty_src_is_absent[where doc = plain_page and pre = "[decorative_img]"
             and e = mile_img and post = "[report_img]" and f = sample_feature]
  note U = empty_src_is_absent[where doc = fallback_page and pre = "[]" and e = mile_img
             and post = "[]" and f = sample_feature and w = ?w and rows = sample_rows
             and st = near_cap and r = "fst ?loop" and st' = "snd ?loop"
             and p = "mile_img\<lparr>src := Some []\<rparr>"]
  have 1: "enrich (plain_page\<lparr>imgs := [decorative_img] @ mile_img\<lparr>src := Some []\<rparr> # [report_img]\<rparr>)
             sample_feature
           = enrich (plain_page\<lparr>imgs := [decorative_img] @ mile_img\<lparr>src := None\<rparr> # [report_img]\<rparr>)
               sample_feature"
    using T by blast
  have 2: "imageUrl (enrich fallback_page sample_feature) \<noteq> Some []"
    using U old by blast
  have 3: "list_all (\<lambda>g. imageUrl g \<noteq> Some []) (features (miles (snd ?loop)))"
    unfolding list_all_iff using U loop inv by blast
  have 4: "map imageUrl (features (miles (snd ?loop))) = [None, Some ''report.jpg'', None]"
    by (simp add: near_cap_run sample_feature_def)
  have "imageUrl (enrich fallback_page sample_feature) =
            (case find is_report_image (imgs fallback_page) of
               None \<Rightarrow> imageUrl sample_feature
             | Some q \<Rightarrow> (case src q of
                            None \<Rightarrow> imageUrl sample_feature
                          | Some u \<Rightarrow> if u = [] then imageUrl sample_feature else Some u))"
    using U primary by blast
  then have 5: "imageUrl (enrich fallback_page sample_feature) = Some ''report.jpg''"
    by (simp add: report)
  from 1 2 3 4 5 show ?thesis by blast
qed

end
